(* ===== verification/Prelude.thy ===== *)
theory Prelude
  imports Main "HOL-Library.Word"
begin

unbundle bit_operations_syntax

text \<open>
  Shared vocabulary of the development: byte buffers, the result type with its sequencing
  operator, the narrowing conversions between the machine integers of C++, and the lemmas about
  them that every component uses.

  Machine integers are HOL integers kept in range by explicit conversions: \<open>u32\<close>, \<open>u64\<close> reduce
  modulo $2^{32}$ and $2^{64}$, \<open>s32\<close>, \<open>s64\<close> reduce into the two's complement range. Bytes are
  8-bit words.
\<close>

type_synonym byte = "8 word"
type_synonym blob = "byte list"

named_theorems res_simps \<open>rules for results and their sequencing\<close>

subsection \<open>Results\<close>

text \<open>\<open>Inl\<close> carries what ends a routine early, \<open>Inr\<close> its value; \<open>rbind\<close> is sequencing.\<close>

definition rbind :: "'e + 'a \<Rightarrow> ('a \<Rightarrow> 'e + 'b) \<Rightarrow> 'e + 'b" where
  "rbind m f = (case m of Inl e \<Rightarrow> Inl e | Inr a \<Rightarrow> f a)"

definition require :: "bool \<Rightarrow> 'e \<Rightarrow> 'e + unit" where
  "require c e = (if c then Inr () else Inl e)"

lemma rbind_Inl [simp]: "rbind (Inl e) f = Inl e"
  and rbind_Inr [simp]: "rbind (Inr a) f = f a"
  by (simp_all add: rbind_def)

lemma rbind_eq_Inr [res_simps]:
  "rbind m f = Inr b \<longleftrightarrow> (\<exists>a. m = Inr a \<and> f a = Inr b)"
  by (cases m) auto

lemma rbind_eq_Inl [res_simps]:
  "rbind m f = Inl e \<longleftrightarrow> m = Inl e \<or> (\<exists>a. m = Inr a \<and> f a = Inl e)"
  by (cases m) auto

lemma rbind_cong [fundef_cong]:
  "m = m' \<Longrightarrow> (\<And>a. m' = Inr a \<Longrightarrow> f a = f' a) \<Longrightarrow> rbind m f = rbind m' f'"
  by (cases m') auto

lemma rbind_assoc: "rbind (rbind m f) g = rbind m (\<lambda>a. rbind (f a) g)"
  by (cases m) auto

lemma require_eq_Inr [res_simps]: "require c e = Inr u \<longleftrightarrow> c"
  by (simp add: require_def)

lemma require_eq_Inl [res_simps]: "require c e = Inl e' \<longleftrightarrow> \<not> c \<and> e' = e"
  by (auto simp: require_def)

lemma require_True [simp]: "require True e = Inr ()"
  and require_False [simp]: "require False e = Inl e"
  by (simp_all add: require_def)

subsection \<open>Integer conversions\<close>

definition u8 :: "int \<Rightarrow> int" where "u8 x = x mod 2 ^ 8"
definition u16 :: "int \<Rightarrow> int" where "u16 x = x mod 2 ^ 16"
definition u32 :: "int \<Rightarrow> int" where "u32 x = x mod 2 ^ 32"
definition u64 :: "int \<Rightarrow> int" where "u64 x = x mod 2 ^ 64"
definition s32 :: "int \<Rightarrow> int" where "s32 x = (x + 2 ^ 31) mod 2 ^ 32 - 2 ^ 31"
definition s64 :: "int \<Rightarrow> int" where "s64 x = (x + 2 ^ 63) mod 2 ^ 64 - 2 ^ 63"

definition is_s32 :: "int \<Rightarrow> bool" where "is_s32 x \<longleftrightarrow> - (2 ^ 31) \<le> x \<and> x < 2 ^ 31"
definition is_u64 :: "int \<Rightarrow> bool" where "is_u64 x \<longleftrightarrow> 0 \<le> x \<and> x < 2 ^ 64"

lemma u32_id [simp]: "0 \<le> x \<Longrightarrow> x < 4294967296 \<Longrightarrow> u32 x = x"
  by (simp add: u32_def)

lemma u64_id [simp]: "0 \<le> x \<Longrightarrow> x < 18446744073709551616 \<Longrightarrow> u64 x = x"
  by (simp add: u64_def)

lemma u64_neg: "- 18446744073709551616 \<le> x \<Longrightarrow> x < 0 \<Longrightarrow> u64 x = x + 18446744073709551616"
  using mod_pos_pos_trivial [of "x + 18446744073709551616" 18446744073709551616] by (simp add: u64_def)

lemma s32_id [simp]: "- 2147483648 \<le> x \<Longrightarrow> x < 2147483648 \<Longrightarrow> s32 x = x"
  by (simp add: s32_def)

lemma s64_id [simp]: "- 9223372036854775808 \<le> x \<Longrightarrow> x < 9223372036854775808 \<Longrightarrow> s64 x = x"
  by (simp add: s64_def)

lemma u32_range: "0 \<le> u32 x" "u32 x < 2 ^ 32"
  by (simp_all add: u32_def)

lemma u64_range: "0 \<le> u64 x" "u64 x < 2 ^ 64"
  by (simp_all add: u64_def)

lemma s32_range: "- (2 ^ 31) \<le> s32 x" "s32 x < 2 ^ 31"
  by (simp_all add: s32_def)

lemma s64_range: "- (2 ^ 63) \<le> s64 x" "s64 x < 2 ^ 63"
  by (simp_all add: s64_def)

subsection \<open>Bytes\<close>

lemma uint_byte_range [simp]: "0 \<le> uint (b :: byte)" "uint (b :: byte) < 256"
  using uint_lt2p [of b] by simp_all

lemma uint_byte_le: "uint (b :: byte) \<le> 255"
  using uint_byte_range(2) [of b] by linarith

lemma uint_word_of_nat_byte [simp]: "m < 256 \<Longrightarrow> uint (word_of_nat m :: byte) = int m"
  by (simp add: unsigned_of_nat take_bit_nat_eq_self)

lemma and_0x7F_mod: "(b :: int) AND 0x7F = b mod 128"
proof -
  have "b AND 0x7F = take_bit 7 b"
    by (simp add: take_bit_eq_mask mask_eq_exp_minus_1)
  then show ?thesis by (simp add: take_bit_eq_mod)
qed

lemma and_0xFF_mod: "(b :: int) AND 0xFF = b mod 256"
proof -
  have "b AND 0xFF = take_bit 8 b"
    by (simp add: take_bit_eq_mask mask_eq_exp_minus_1)
  then show ?thesis by (simp add: take_bit_eq_mod)
qed

lemma and_0xF_mod: "(b :: int) AND 0xF = b mod 16"
proof -
  have "b AND 0xF = take_bit 4 b"
    by (simp add: take_bit_eq_mask mask_eq_exp_minus_1)
  then show ?thesis by (simp add: take_bit_eq_mod)
qed

text \<open>Setting bits above a small value adds them.\<close>

lemma or_push_bit_add:
  assumes "0 \<le> (x :: int)" "x < 2 ^ n"
  shows "x OR push_bit n d = x + d * 2 ^ n"
proof -
  have "take_bit n x = x" using assms by (simp add: take_bit_int_eq_self)
  moreover have "take_bit n x AND push_bit n d = 0"
    by (rule bit_eqI) (auto simp: bit_simps)
  ultimately have "x AND push_bit n d = 0" by simp
  then show ?thesis by (simp add: disjunctive_add_eq_or [symmetric] push_bit_eq_mult)
qed

lemma and_exp_eq_of_bool: "(b :: int) AND 2 ^ n = of_bool (bit b n) * 2 ^ n"
  by (rule bit_eqI) (auto simp: bit_simps)

lemma and_0x80_byte:
  assumes "0 \<le> (b :: int)" "b < 256"
  shows "b AND 0x80 = (if b < 128 then 0 else 128)"
proof -
  have "b AND 0x80 = of_bool (odd (b div 128)) * 128"
    using and_exp_eq_of_bool [of b 7] by (simp add: bit_iff_odd)
  moreover have "b div 128 = (if b < 128 then 0 else 1)" using assms by auto
  ultimately show ?thesis by simp
qed

end
