(* ===== verification/Hook_Enum.thy ===== *)
theory Hook_Enum
  imports Prelude
begin

text \<open>
  The constants of \<^verbatim>\<open>src/src/ripple/app/hook/Enum.h\<close>: log codes, hook API return codes, limits,
  exit types, and the whitelist of importable API functions with their WebAssembly signatures
  (result type first, then the parameter types, as WebAssembly type bytes). The sum of what can
  end a static check early is \<open>fault\<close>: a rejection with its log code, one of the two C++
  exceptions the parsers throw, or undefined behaviour.
\<close>

subsection \<open>Log codes\<close>

abbreviation (input) AMENDMENT_DISABLED :: int where "AMENDMENT_DISABLED \<equiv> 1"
abbreviation (input) API_ILLEGAL :: int where "API_ILLEGAL \<equiv> 2"
abbreviation (input) API_INVALID :: int where "API_INVALID \<equiv> 3"
abbreviation (input) API_MISSING :: int where "API_MISSING \<equiv> 4"
abbreviation (input) BLOCK_ILLEGAL :: int where "BLOCK_ILLEGAL \<equiv> 5"
abbreviation (input) CALL_ILLEGAL :: int where "CALL_ILLEGAL \<equiv> 6"
abbreviation (input) CALL_INDIRECT :: int where "CALL_INDIRECT \<equiv> 7"
abbreviation (input) CREATE_FLAG :: int where "CREATE_FLAG \<equiv> 8"
abbreviation (input) DELETE_FIELD :: int where "DELETE_FIELD \<equiv> 9"
abbreviation (input) DELETE_FLAG :: int where "DELETE_FLAG \<equiv> 10"
abbreviation (input) DELETE_NOTHING :: int where "DELETE_NOTHING \<equiv> 11"
abbreviation (input) EXPORTS_MISSING :: int where "EXPORTS_MISSING \<equiv> 12"
abbreviation (input) EXPORT_CBAK_FUNC :: int where "EXPORT_CBAK_FUNC \<equiv> 13"
abbreviation (input) EXPORT_HOOK_FUNC :: int where "EXPORT_HOOK_FUNC \<equiv> 14"
abbreviation (input) EXPORT_MISSING :: int where "EXPORT_MISSING \<equiv> 15"
abbreviation (input) FLAGS_INVALID :: int where "FLAGS_INVALID \<equiv> 16"
abbreviation (input) FUNCS_MISSING :: int where "FUNCS_MISSING \<equiv> 17"
abbreviation (input) FUNC_PARAM_INVALID :: int where "FUNC_PARAM_INVALID \<equiv> 18"
abbreviation (input) FUNC_RETURN_COUNT :: int where "FUNC_RETURN_COUNT \<equiv> 19"
abbreviation (input) FUNC_RETURN_INVALID :: int where "FUNC_RETURN_INVALID \<equiv> 20"
abbreviation (input) FUNC_TYPELESS :: int where "FUNC_TYPELESS \<equiv> 21"
abbreviation (input) FUNC_TYPE_INVALID :: int where "FUNC_TYPE_INVALID \<equiv> 22"
abbreviation (input) GRANTS_EMPTY :: int where "GRANTS_EMPTY \<equiv> 23"
abbreviation (input) GRANTS_EXCESS :: int where "GRANTS_EXCESS \<equiv> 24"
abbreviation (input) GRANTS_FIELD :: int where "GRANTS_FIELD \<equiv> 25"
abbreviation (input) GRANTS_ILLEGAL :: int where "GRANTS_ILLEGAL \<equiv> 26"
abbreviation (input) GUARD_IMPORT :: int where "GUARD_IMPORT \<equiv> 27"
abbreviation (input) GUARD_MISSING :: int where "GUARD_MISSING \<equiv> 28"
abbreviation (input) GUARD_PARAMETERS :: int where "GUARD_PARAMETERS \<equiv> 29"
abbreviation (input) HASH_OR_CODE :: int where "HASH_OR_CODE \<equiv> 30"
abbreviation (input) HOOKON_MISSING :: int where "HOOKON_MISSING \<equiv> 31"
abbreviation (input) HOOKS_ARRAY_BAD :: int where "HOOKS_ARRAY_BAD \<equiv> 32"
abbreviation (input) HOOKS_ARRAY_BLANK :: int where "HOOKS_ARRAY_BLANK \<equiv> 33"
abbreviation (input) HOOKS_ARRAY_EMPTY :: int where "HOOKS_ARRAY_EMPTY \<equiv> 34"
abbreviation (input) HOOKS_ARRAY_MISSING :: int where "HOOKS_ARRAY_MISSING \<equiv> 35"
abbreviation (input) HOOKS_ARRAY_TOO_BIG :: int where "HOOKS_ARRAY_TOO_BIG \<equiv> 36"
abbreviation (input) HOOK_ADD :: int where "HOOK_ADD \<equiv> 37"
abbreviation (input) HOOK_DEF_MISSING :: int where "HOOK_DEF_MISSING \<equiv> 38"
abbreviation (input) HOOK_DELETE :: int where "HOOK_DELETE \<equiv> 39"
abbreviation (input) HOOK_INVALID_FIELD :: int where "HOOK_INVALID_FIELD \<equiv> 40"
abbreviation (input) HOOK_PARAMS_COUNT :: int where "HOOK_PARAMS_COUNT \<equiv> 41"
abbreviation (input) HOOK_PARAM_SIZE :: int where "HOOK_PARAM_SIZE \<equiv> 42"
abbreviation (input) IMPORTS_MISSING :: int where "IMPORTS_MISSING \<equiv> 43"
abbreviation (input) IMPORT_ILLEGAL :: int where "IMPORT_ILLEGAL \<equiv> 44"
abbreviation (input) IMPORT_MODULE_BAD :: int where "IMPORT_MODULE_BAD \<equiv> 45"
abbreviation (input) IMPORT_MODULE_ENV :: int where "IMPORT_MODULE_ENV \<equiv> 46"
abbreviation (input) IMPORT_NAME_BAD :: int where "IMPORT_NAME_BAD \<equiv> 47"
abbreviation (input) INSTALL_FLAG :: int where "INSTALL_FLAG \<equiv> 48"
abbreviation (input) INSTALL_MISSING :: int where "INSTALL_MISSING \<equiv> 49"
abbreviation (input) INSTRUCTION_COUNT :: int where "INSTRUCTION_COUNT \<equiv> 50"
abbreviation (input) INSTRUCTION_EXCESS :: int where "INSTRUCTION_EXCESS \<equiv> 51"
abbreviation (input) MEMORY_GROW :: int where "MEMORY_GROW \<equiv> 52"
abbreviation (input) NAMESPACE_MISSING :: int where "NAMESPACE_MISSING \<equiv> 53"
abbreviation (input) NSDELETE :: int where "NSDELETE \<equiv> 54"
abbreviation (input) NSDELETE_ACCOUNT :: int where "NSDELETE_ACCOUNT \<equiv> 55"
abbreviation (input) NSDELETE_COUNT :: int where "NSDELETE_COUNT \<equiv> 56"
abbreviation (input) NSDELETE_DIR :: int where "NSDELETE_DIR \<equiv> 57"
abbreviation (input) NSDELETE_DIRECTORY :: int where "NSDELETE_DIRECTORY \<equiv> 58"
abbreviation (input) NSDELETE_DIR_ENTRY :: int where "NSDELETE_DIR_ENTRY \<equiv> 59"
abbreviation (input) NSDELETE_ENTRY :: int where "NSDELETE_ENTRY \<equiv> 60"
abbreviation (input) NSDELETE_FIELD :: int where "NSDELETE_FIELD \<equiv> 61"
abbreviation (input) NSDELETE_FLAGS :: int where "NSDELETE_FLAGS \<equiv> 62"
abbreviation (input) NSDELETE_NONSTATE :: int where "NSDELETE_NONSTATE \<equiv> 63"
abbreviation (input) NSDELETE_NOTHING :: int where "NSDELETE_NOTHING \<equiv> 64"
abbreviation (input) OPERATION_INVALID :: int where "OPERATION_INVALID \<equiv> 65"
abbreviation (input) OVERRIDE_MISSING :: int where "OVERRIDE_MISSING \<equiv> 66"
abbreviation (input) PARAMETERS_FIELD :: int where "PARAMETERS_FIELD \<equiv> 67"
abbreviation (input) PARAMETERS_ILLEGAL :: int where "PARAMETERS_ILLEGAL \<equiv> 68"
abbreviation (input) PARAMETERS_NAME :: int where "PARAMETERS_NAME \<equiv> 69"
abbreviation (input) PARAM_HOOK_CBAK :: int where "PARAM_HOOK_CBAK \<equiv> 70"
abbreviation (input) RETURN_HOOK_CBAK :: int where "RETURN_HOOK_CBAK \<equiv> 71"
abbreviation (input) SHORT_HOOK :: int where "SHORT_HOOK \<equiv> 72"
abbreviation (input) TYPE_INVALID :: int where "TYPE_INVALID \<equiv> 73"
abbreviation (input) WASM_BAD_MAGIC :: int where "WASM_BAD_MAGIC \<equiv> 74"
abbreviation (input) WASM_INVALID :: int where "WASM_INVALID \<equiv> 75"
abbreviation (input) WASM_PARSE_LOOP :: int where "WASM_PARSE_LOOP \<equiv> 76"
abbreviation (input) WASM_SMOKE_TEST :: int where "WASM_SMOKE_TEST \<equiv> 77"
abbreviation (input) WASM_TEST_FAILURE :: int where "WASM_TEST_FAILURE \<equiv> 78"
abbreviation (input) WASM_TOO_BIG :: int where "WASM_TOO_BIG \<equiv> 79"
abbreviation (input) WASM_TOO_SMALL :: int where "WASM_TOO_SMALL \<equiv> 80"
abbreviation (input) WASM_VALIDATION :: int where "WASM_VALIDATION \<equiv> 81"
abbreviation (input) HOOK_CBAK_DIFF_TYPES :: int where "HOOK_CBAK_DIFF_TYPES \<equiv> 82"
abbreviation (input) PARAMETERS_NAME_REPEATED :: int where "PARAMETERS_NAME_REPEATED \<equiv> 83"
abbreviation (input) NESTING_LIMIT :: int where "NESTING_LIMIT \<equiv> 84"
abbreviation (input) SECTIONS_OUT_OF_SEQUENCE :: int where "SECTIONS_OUT_OF_SEQUENCE \<equiv> 85"
abbreviation (input) CUSTOM_SECTION_DISALLOWED :: int where "CUSTOM_SECTION_DISALLOWED \<equiv> 86"
abbreviation (input) LOG_INTERNAL_ERROR :: int where "LOG_INTERNAL_ERROR \<equiv> 87"

subsection \<open>Hook API return codes\<close>

abbreviation (input) SUCCESS :: int where "SUCCESS \<equiv> 0"
abbreviation (input) OUT_OF_BOUNDS :: int where "OUT_OF_BOUNDS \<equiv> - 1"
abbreviation (input) INTERNAL_ERROR :: int where "INTERNAL_ERROR \<equiv> - 2"
abbreviation (input) TOO_BIG :: int where "TOO_BIG \<equiv> - 3"
abbreviation (input) TOO_SMALL :: int where "TOO_SMALL \<equiv> - 4"
abbreviation (input) DOESNT_EXIST :: int where "DOESNT_EXIST \<equiv> - 5"
abbreviation (input) NO_FREE_SLOTS :: int where "NO_FREE_SLOTS \<equiv> - 6"
abbreviation (input) INVALID_ARGUMENT :: int where "INVALID_ARGUMENT \<equiv> - 7"
abbreviation (input) ALREADY_SET :: int where "ALREADY_SET \<equiv> - 8"
abbreviation (input) PREREQUISITE_NOT_MET :: int where "PREREQUISITE_NOT_MET \<equiv> - 9"
abbreviation (input) FEE_TOO_LARGE :: int where "FEE_TOO_LARGE \<equiv> - 10"
abbreviation (input) EMISSION_FAILURE :: int where "EMISSION_FAILURE \<equiv> - 11"
abbreviation (input) TOO_MANY_NONCES :: int where "TOO_MANY_NONCES \<equiv> - 12"
abbreviation (input) TOO_MANY_EMITTED_TXN :: int where "TOO_MANY_EMITTED_TXN \<equiv> - 13"
abbreviation (input) NOT_IMPLEMENTED :: int where "NOT_IMPLEMENTED \<equiv> - 14"
abbreviation (input) INVALID_ACCOUNT :: int where "INVALID_ACCOUNT \<equiv> - 15"
abbreviation (input) GUARD_VIOLATION :: int where "GUARD_VIOLATION \<equiv> - 16"
abbreviation (input) INVALID_FIELD :: int where "INVALID_FIELD \<equiv> - 17"
abbreviation (input) PARSE_ERROR :: int where "PARSE_ERROR \<equiv> - 18"
abbreviation (input) RC_ROLLBACK :: int where "RC_ROLLBACK \<equiv> - 19"
abbreviation (input) RC_ACCEPT :: int where "RC_ACCEPT \<equiv> - 20"
abbreviation (input) NO_SUCH_KEYLET :: int where "NO_SUCH_KEYLET \<equiv> - 21"
abbreviation (input) NOT_AN_ARRAY :: int where "NOT_AN_ARRAY \<equiv> - 22"
abbreviation (input) NOT_AN_OBJECT :: int where "NOT_AN_OBJECT \<equiv> - 23"
abbreviation (input) INVALID_FLOAT :: int where "INVALID_FLOAT \<equiv> - 10024"
abbreviation (input) DIVISION_BY_ZERO :: int where "DIVISION_BY_ZERO \<equiv> - 25"
abbreviation (input) MANTISSA_OVERSIZED :: int where "MANTISSA_OVERSIZED \<equiv> - 26"
abbreviation (input) MANTISSA_UNDERSIZED :: int where "MANTISSA_UNDERSIZED \<equiv> - 27"
abbreviation (input) EXPONENT_OVERSIZED :: int where "EXPONENT_OVERSIZED \<equiv> - 28"
abbreviation (input) EXPONENT_UNDERSIZED :: int where "EXPONENT_UNDERSIZED \<equiv> - 29"
abbreviation (input) XFL_OVERFLOW :: int where "XFL_OVERFLOW \<equiv> - 30"
abbreviation (input) NOT_IOU_AMOUNT :: int where "NOT_IOU_AMOUNT \<equiv> - 31"
abbreviation (input) NOT_AN_AMOUNT :: int where "NOT_AN_AMOUNT \<equiv> - 32"
abbreviation (input) CANT_RETURN_NEGATIVE :: int where "CANT_RETURN_NEGATIVE \<equiv> - 33"
abbreviation (input) NOT_AUTHORIZED :: int where "NOT_AUTHORIZED \<equiv> - 34"
abbreviation (input) PREVIOUS_FAILURE_PREVENTS_RETRY :: int where "PREVIOUS_FAILURE_PREVENTS_RETRY \<equiv> - 35"
abbreviation (input) TOO_MANY_PARAMS :: int where "TOO_MANY_PARAMS \<equiv> - 36"
abbreviation (input) INVALID_TXN :: int where "INVALID_TXN \<equiv> - 37"
abbreviation (input) RESERVE_INSUFFICIENT :: int where "RESERVE_INSUFFICIENT \<equiv> - 38"
abbreviation (input) COMPLEX_NOT_SUPPORTED :: int where "COMPLEX_NOT_SUPPORTED \<equiv> - 39"
abbreviation (input) DOES_NOT_MATCH :: int where "DOES_NOT_MATCH \<equiv> - 40"
abbreviation (input) INVALID_KEY :: int where "INVALID_KEY \<equiv> - 41"
abbreviation (input) NOT_A_STRING :: int where "NOT_A_STRING \<equiv> - 42"
abbreviation (input) MEM_OVERLAP :: int where "MEM_OVERLAP \<equiv> - 43"
abbreviation (input) TOO_MANY_STATE_MODIFICATIONS :: int where "TOO_MANY_STATE_MODIFICATIONS \<equiv> - 44"
abbreviation (input) TOO_MANY_NAMESPACES :: int where "TOO_MANY_NAMESPACES \<equiv> - 45"

subsection \<open>Exit types, faults and limits\<close>

datatype ExitType = UNSET | WASM_ERROR | ROLLBACK | ACCEPT

datatype fault =
    Reject int
  | Overflow_error
  | Length_error
  | Runtime_error
  | Undefined

definition maxHookParameterKeySize :: int where "maxHookParameterKeySize = 32"
definition maxHookParameterValueSize :: int where "maxHookParameterValueSize = 256"
definition maxHookStateDataSize :: int where "maxHookStateDataSize = 256"
definition maxHookWasmSize :: int where "maxHookWasmSize = 0xFFFF"
definition maxHookChainLength :: int where "maxHookChainLength = 10"
definition maxNamespaces :: int where "maxNamespaces = 256"
definition maxNamespaceDelete :: int where "maxNamespaceDelete = 256"

definition max_state_modifications :: int where "max_state_modifications = 256"
definition max_slots :: int where "max_slots = 255"
definition max_nonce :: int where "max_nonce = 255"
definition max_emit :: int where "max_emit = 255"
definition max_params :: int where "max_params = 16"

definition import_whitelist_table :: "(string \<times> int list) list" where
  "import_whitelist_table = [
     (''_g'', [0x7F, 0x7F, 0x7F]),
     (''accept'', [0x7E, 0x7F, 0x7F, 0x7E]),
     (''rollback'', [0x7E, 0x7F, 0x7F, 0x7E]),
     (''util_raddr'', [0x7E, 0x7F, 0x7F, 0x7F, 0x7F]),
     (''util_accid'', [0x7E, 0x7F, 0x7F, 0x7F, 0x7F]),
     (''util_verify'', [0x7E, 0x7F, 0x7F, 0x7F, 0x7F, 0x7F, 0x7F]),
     (''util_sha512h'', [0x7E, 0x7F, 0x7F, 0x7F, 0x7F]),
     (''util_keylet'', [0x7E, 0x7F, 0x7F, 0x7F, 0x7F, 0x7F, 0x7F, 0x7F, 0x7F, 0x7F]),
     (''sto_validate'', [0x7E, 0x7F, 0x7F]),
     (''sto_subfield'', [0x7E, 0x7F, 0x7F, 0x7F]),
     (''sto_subarray'', [0x7E, 0x7F, 0x7F, 0x7F]),
     (''sto_emplace'', [0x7E, 0x7F, 0x7F, 0x7F, 0x7F, 0x7F, 0x7F, 0x7F]),
     (''sto_erase'', [0x7E, 0x7F, 0x7F, 0x7F, 0x7F, 0x7F]),
     (''etxn_burden'', [0x7E]),
     (''etxn_details'', [0x7E, 0x7F, 0x7F]),
     (''etxn_fee_base'', [0x7E, 0x7F, 0x7F]),
     (''etxn_reserve'', [0x7E, 0x7F]),
     (''etxn_generation'', [0x7E]),
     (''etxn_nonce'', [0x7E, 0x7F, 0x7F]),
     (''emit'', [0x7E, 0x7F, 0x7F, 0x7F, 0x7F]),
     (''float_set'', [0x7E, 0x7F, 0x7E]),
     (''float_multiply'', [0x7E, 0x7E, 0x7E]),
     (''float_mulratio'', [0x7E, 0x7E, 0x7F, 0x7F, 0x7F]),
     (''float_negate'', [0x7E, 0x7E]),
     (''float_compare'', [0x7E, 0x7E, 0x7E, 0x7F]),
     (''float_sum'', [0x7E, 0x7E, 0x7E]),
     (''float_sto'', [0x7E, 0x7F, 0x7F, 0x7F, 0x7F, 0x7F, 0x7F, 0x7E, 0x7F]),
     (''float_sto_set'', [0x7E, 0x7F, 0x7F]),
     (''float_invert'', [0x7E, 0x7E]),
     (''float_divide'', [0x7E, 0x7E, 0x7E]),
     (''float_one'', [0x7E]),
     (''float_mantissa'', [0x7E, 0x7E]),
     (''float_sign'', [0x7E, 0x7E]),
     (''float_int'', [0x7E, 0x7E, 0x7F, 0x7F]),
     (''float_log'', [0x7E, 0x7E]),
     (''float_root'', [0x7E, 0x7E, 0x7F]),
     (''fee_base'', [0x7E]),
     (''ledger_seq'', [0x7E]),
     (''ledger_last_time'', [0x7E]),
     (''ledger_last_hash'', [0x7E, 0x7F, 0x7F]),
     (''ledger_nonce'', [0x7E, 0x7F, 0x7F]),
     (''ledger_keylet'', [0x7E, 0x7F, 0x7F, 0x7F, 0x7F, 0x7F, 0x7F]),
     (''hook_account'', [0x7E, 0x7F, 0x7F]),
     (''hook_hash'', [0x7E, 0x7F, 0x7F, 0x7F]),
     (''hook_param_set'', [0x7E, 0x7F, 0x7F, 0x7F, 0x7F, 0x7F, 0x7F]),
     (''hook_param'', [0x7E, 0x7F, 0x7F, 0x7F, 0x7F]),
     (''hook_again'', [0x7E]),
     (''hook_skip'', [0x7E, 0x7F, 0x7F, 0x7F]),
     (''hook_pos'', [0x7E]),
     (''slot'', [0x7E, 0x7F, 0x7F, 0x7F]),
     (''slot_clear'', [0x7E, 0x7F]),
     (''slot_count'', [0x7E, 0x7F]),
     (''slot_set'', [0x7E, 0x7F, 0x7F, 0x7F]),
     (''slot_size'', [0x7E, 0x7F]),
     (''slot_subarray'', [0x7E, 0x7F, 0x7F, 0x7F]),
     (''slot_subfield'', [0x7E, 0x7F, 0x7F, 0x7F]),
     (''slot_type'', [0x7E, 0x7F, 0x7F]),
     (''slot_float'', [0x7E, 0x7F]),
     (''state_set'', [0x7E, 0x7F, 0x7F, 0x7F, 0x7F]),
     (''state_foreign_set'', [0x7E, 0x7F, 0x7F, 0x7F, 0x7F, 0x7F, 0x7F, 0x7F, 0x7F]),
     (''state'', [0x7E, 0x7F, 0x7F, 0x7F, 0x7F]),
     (''state_foreign'', [0x7E, 0x7F, 0x7F, 0x7F, 0x7F, 0x7F, 0x7F, 0x7F, 0x7F]),
     (''trace'', [0x7E, 0x7F, 0x7F, 0x7F, 0x7F, 0x7F]),
     (''trace_num'', [0x7E, 0x7F, 0x7F, 0x7E]),
     (''trace_float'', [0x7E, 0x7F, 0x7F, 0x7E]),
     (''otxn_burden'', [0x7E]),
     (''otxn_field'', [0x7E, 0x7F, 0x7F, 0x7F]),
     (''otxn_generation'', [0x7E]),
     (''otxn_id'', [0x7E, 0x7F, 0x7F, 0x7F]),
     (''otxn_type'', [0x7E]),
     (''otxn_slot'', [0x7E, 0x7F]),
     (''otxn_param'', [0x7E, 0x7F, 0x7F, 0x7F, 0x7F]),
     (''meta_slot'', [0x7E, 0x7F])]"

definition import_whitelist :: "string \<Rightarrow> int list option" where
  "import_whitelist = map_of import_whitelist_table"

definition import_whitelist_1 :: "string \<Rightarrow> int list option" where
  "import_whitelist_1 = map_of [(''xpop_slot'', [0x7E, 0x7F, 0x7F])]"

text \<open>Every whitelisted API takes and returns only 32-bit and 64-bit integers.\<close>

lemma whitelist_types:
  "import_whitelist n = Some sig \<Longrightarrow> sig \<noteq> [] \<and> set sig \<subseteq> {0x7E, 0x7F}"
  unfolding import_whitelist_def
  by (drule map_of_SomeD) (auto simp: import_whitelist_table_def)

lemma whitelist_small: "import_whitelist n = Some sig \<Longrightarrow> length sig < 16"
  unfolding import_whitelist_def
  by (drule map_of_SomeD) (auto simp: import_whitelist_table_def)

end
