(* ===== verification/Leb128.thy ===== *)
theory Leb128
  imports Hook_Enum
begin

unbundle bit_operations_syntax

text \<open>
  The LEB128 readers at the head of \<^verbatim>\<open>src/src/ripple/app/hook/Guard.h\<close>. Every caller passes the
  address of its own cursor as \<open>end_offset\<close>, so the readers return the value and the new cursor,
  which is the old one when the cursor is already outside the buffer (the C++ loop is then not
  entered and nothing is written). Shifting a 64-bit value by 64 or more, or the \<open>int\<close> constant
  \<open>~0\<close> by 32 or more, is undefined behaviour and is the fault \<open>Undefined\<close>.
\<close>

subsection \<open>Readers\<close>

function leb_loop :: "blob \<Rightarrow> nat \<Rightarrow> int \<Rightarrow> nat \<Rightarrow> int \<Rightarrow> fault + (int \<times> int)" where
  "leb_loop buf i val shift cursor =
     (if i < length buf then
        let b = uint (buf ! i) in
        if shift \<ge> 64 then Inl Undefined
        else
          let last = val; val' = u64 (val + u64 (push_bit shift (b AND 0x7F))) in
          if val' < last then Inl Overflow_error
          else if b AND 0x80 \<noteq> 0 then
            (if \<not> Suc i < length buf then Inl Length_error
             else leb_loop buf (Suc i) val' (shift + 7) cursor)
          else Inr (val', int (Suc i))
      else Inr (0, cursor))"
  by pat_completeness auto
termination
  by (relation "measure (\<lambda>(buf, i, _). length buf - i)") auto

declare leb_loop.simps [simp del]

definition parseLeb128 :: "blob \<Rightarrow> int \<Rightarrow> fault + (int \<times> int)" where
  "parseLeb128 buf start_offset =
     (if start_offset < 0 then Inr (0, start_offset)
      else leb_loop buf (nat start_offset) 0 0 start_offset)"

function signed_leb_loop :: "blob \<Rightarrow> nat \<Rightarrow> int \<Rightarrow> nat \<Rightarrow> int \<Rightarrow> fault + (int \<times> int)" where
  "signed_leb_loop buf i val shift cursor =
     (if i < length buf then
        let b = uint (buf ! i) in
        if shift \<ge> 64 then Inl Undefined
        else
          let last = val; val' = s64 (val + u64 (push_bit shift (b AND 0x7F))) in
          if val' < last then Inl Overflow_error
          else if b AND 0x80 \<noteq> 0 then
            (if \<not> Suc i < length buf then Inl Length_error
             else signed_leb_loop buf (Suc i) val' (shift + 7) cursor)
          else if shift < 64 \<and> b AND 0x40 \<noteq> 0 then
            (if shift \<ge> 32 then Inl Undefined
             else Inr (val' OR s32 (push_bit shift (NOT 0)), int (Suc i)))
          else Inr (val', int (Suc i))
      else Inr (0, cursor))"
  by pat_completeness auto
termination
  by (relation "measure (\<lambda>(buf, i, _). length buf - i)") auto

declare signed_leb_loop.simps [simp del]

definition parseSignedLeb128 :: "blob \<Rightarrow> int \<Rightarrow> fault + (int \<times> int)" where
  "parseSignedLeb128 buf start_offset =
     (if start_offset < 0 then Inr (0, start_offset)
      else signed_leb_loop buf (nat start_offset) 0 0 start_offset)"

subsection \<open>Reference encoding\<close>

text \<open>The canonical unsigned LEB128 encoding of the WebAssembly specification.\<close>

fun leb128_encode :: "nat \<Rightarrow> blob" where
  "leb128_encode n =
     (if n < 128 then [word_of_nat n]
      else word_of_nat (128 + n mod 128) # leb128_encode (n div 128))"

declare leb128_encode.simps [simp del]

text \<open>The textbook signed LEB128 value of a byte sequence that ends at its first byte below 128.\<close>

fun sleb128_value :: "blob \<Rightarrow> int" where
  "sleb128_value [] = 0"
| "sleb128_value (b # bs) =
     (if uint b < 128
      then (if uint b < 64 then uint b else uint b - 128)
      else uint b - 128 + 128 * sleb128_value bs)"

subsection \<open>Ranges\<close>

lemma leb_loop_step:
  assumes "i < length buf" "shift < 64"
  shows "leb_loop buf i val shift c =
    (let b = uint (buf ! i); val' = u64 (val + u64 (b mod 128 * 2 ^ shift)) in
     if val' < val then Inl Overflow_error
     else if b \<ge> 128 then (if Suc i < length buf then leb_loop buf (Suc i) val' (shift + 7) c
                           else Inl Length_error)
     else Inr (val', int (Suc i)))"
  using assms
  by (subst leb_loop.simps) (simp add: Let_def and_0x7F_mod push_bit_eq_mult and_0x80_byte)

lemma leb_loop_out: "\<not> i < length buf \<Longrightarrow> leb_loop buf i val shift c = Inr (0, c)"
  by (subst leb_loop.simps) simp

lemma leb_loop_range:
  assumes "leb_loop buf i val shift c = Inr (v, e)" "i < length buf"
  shows "0 \<le> v \<and> v < 2 ^ 64 \<and> int i < e \<and> e \<le> int (length buf)"
  using assms
proof (induction buf i val shift c rule: leb_loop.induct)
  case (1 buf i val shift c)
  from "1.prems" have shift: "shift < 64"
    by (subst (asm) leb_loop.simps) (auto simp: Let_def split: if_splits)
  let ?v = "u64 (val + u64 (uint (buf ! i) mod 128 * 2 ^ shift))"
  have IH: "0 \<le> v \<and> v < 2 ^ 64 \<and> int (Suc i) < e \<and> e \<le> int (length buf)"
    if "uint (buf ! i) \<ge> 128" "\<not> ?v < val" "Suc i < length buf"
      "leb_loop buf (Suc i) ?v (shift + 7) c = Inr (v, e)"
    using that shift "1.IH" [OF "1.prems"(2) refl _ refl refl]
    by (simp add: and_0x80_byte and_0x7F_mod push_bit_eq_mult)
  from "1.prems" shift IH show ?case
    by (subst (asm) leb_loop_step) (auto simp: Let_def u64_range [simplified] split: if_splits)
qed

lemma parseLeb128_range:
  assumes "parseLeb128 buf i = Inr (v, e)"
  shows "0 \<le> v \<and> v < 2 ^ 64"
    and "0 \<le> i \<Longrightarrow> i < int (length buf) \<Longrightarrow> i < e \<and> e \<le> int (length buf)"
    and "i < 0 \<or> int (length buf) \<le> i \<Longrightarrow> v = 0 \<and> e = i"
  using assms leb_loop_range [of buf "nat i" 0 0 i v e]
  by (auto simp: parseLeb128_def leb_loop.simps [of buf "nat i"] split: if_splits)

lemma signed_leb_loop_range:
  assumes "signed_leb_loop buf i val shift c = Inr (v, e)" "i < length buf"
  shows "int i < e \<and> e \<le> int (length buf)"
  using assms
proof (induction buf i val shift c rule: signed_leb_loop.induct)
  case (1 buf i val shift c)
  show ?case
    using "1.prems" "1.IH" [OF "1.prems"(2) refl _ refl refl]
    by (auto simp: Let_def signed_leb_loop.simps [of buf i val shift c] split: if_splits)
qed

lemma parseSignedLeb128_range:
  assumes "parseSignedLeb128 buf i = Inr (v, e)"
  shows "0 \<le> i \<Longrightarrow> i < int (length buf) \<Longrightarrow> i < e \<and> e \<le> int (length buf)"
    and "i < 0 \<or> int (length buf) \<le> i \<Longrightarrow> v = 0 \<and> e = i"
  using assms signed_leb_loop_range [of buf "nat i" 0 0 i v e]
  by (auto simp: parseSignedLeb128_def signed_leb_loop.simps [of buf "nat i"] split: if_splits)

subsection \<open>Round trip\<close>

lemma leb128_encode_nonempty [simp]: "leb128_encode n \<noteq> []"
  by (subst leb128_encode.simps) simp

lemma leb_loop_encode:
  assumes "0 \<le> val" "val + int n * 2 ^ shift < 2 ^ 64" "n = 0 \<Longrightarrow> shift < 64"
  shows "leb_loop (pre @ leb128_encode n @ suf) (length pre) val shift c =
    Inr (val + int n * 2 ^ shift, int (length pre + length (leb128_encode n)))"
  using assms
proof (induction n arbitrary: pre val shift rule: leb128_encode.induct)
  case (1 n)
  have shift: "shift < 64"
  proof (cases "n = 0")
    case False
    then have "(2 :: int) ^ shift \<le> int n * 2 ^ shift" by simp
    also have "\<dots> < 2 ^ 64" using "1.prems" by linarith
    finally show ?thesis by (rule power_less_imp_less_exp [rotated]) simp
  qed (use "1.prems" in simp)
  have split: "int n * 2 ^ shift = int (n mod 128) * 2 ^ shift + int (n div 128) * 2 ^ (shift + 7)"
  proof -
    have "int n = int (n mod 128) + int (n div 128) * 128"
      by (simp add: of_nat_mod of_nat_div)
    then show ?thesis by (simp add: power_add algebra_simps)
  qed
  have low: "0 \<le> int (n mod 128) * 2 ^ shift" "int (n mod 128) * 2 ^ shift < 2 ^ 64"
      "val + int (n mod 128) * 2 ^ shift < 2 ^ 64"
  proof -
    have hi: "0 \<le> int (n div 128) * 2 ^ (shift + 7)" by simp
    show lo: "0 \<le> int (n mod 128) * 2 ^ shift" by simp
    show "int (n mod 128) * 2 ^ shift < 2 ^ 64" "val + int (n mod 128) * 2 ^ shift < 2 ^ 64"
      using split hi lo "1.prems"(1,2) by linarith+
  qed
  show ?case
  proof (cases "n < 128")
    case True
    then show ?thesis using shift low "1.prems"
      by (subst (1 2) leb128_encode.simps) (simp add: leb_loop_step Let_def nth_append mult_less_0_iff)
  next
    case False
    let ?val = "val + int (n mod 128) * 2 ^ shift"
    define b :: byte where "b = word_of_nat (128 + n mod 128)"
    have b: "uint b = 128 + int (n mod 128)"
      unfolding b_def by (subst uint_word_of_nat_byte) auto
    have enc: "leb128_encode n = b # leb128_encode (n div 128)"
      using False by (subst leb128_encode.simps) (simp add: b_def)
    have "leb_loop ((pre @ [b]) @ leb128_encode (n div 128) @ suf) (length (pre @ [b])) ?val
        (shift + 7) c = Inr (?val + int (n div 128) * 2 ^ (shift + 7),
             int (length (pre @ [b]) + length (leb128_encode (n div 128))))"
      using False "1.prems" split low by (intro "1.IH") auto
    then show ?thesis using shift low "1.prems" split b
      by (simp add: enc leb_loop_step Let_def nth_append mult_less_0_iff zmod_int)
  qed
qed

text \<open>
  C30. Reading a canonically encoded 64-bit number at any offset of any buffer returns that number
  and leaves the cursor just behind its last byte: the unsigned LEB128 reader decodes every
  encoding WebAssembly tools emit.
\<close>

theorem parseLeb128_encode:
  assumes "n < 2 ^ 64"
  shows "parseLeb128 (pre @ leb128_encode n @ suf) (int (length pre)) =
    Inr (int n, int (length pre + length (leb128_encode n)))"
proof -
  have "int n < 2 ^ 64" using assms by (metis of_nat_less_iff of_nat_numeral of_nat_power)
  then show ?thesis
    using leb_loop_encode [of 0 n 0 pre suf "int (length pre)"] by (simp add: parseLeb128_def)
qed

theorem parseLeb128_encode_witness:
  "parseLeb128 ([7] @ leb128_encode 624485 @ [1]) 1 =
     Inr (624485, int (1 + length (leb128_encode 624485)))"
  using parseLeb128_encode [of 624485 "[7]" "[1]"] by simp

subsection \<open>Definedness\<close>

lemma leb_loop_defined:
  assumes "shift + 7 * k < 64" "uint (buf ! (i + k)) < 128 \<or> length buf \<le> Suc (i + k)"
  shows "leb_loop buf i val shift c \<noteq> Inl Undefined"
  using assms
proof (induction k arbitrary: i val shift)
  case 0
  then show ?case
    using leb_loop_step [of i buf shift val c]
    by (cases "i < length buf") (auto simp: leb_loop_out Let_def)
next
  case (Suc k)
  have "leb_loop buf (Suc i) v (shift + 7) c \<noteq> Inl Undefined" for v
    using Suc.prems by (intro Suc.IH) auto
  then show ?case using Suc.prems leb_loop_step [of i buf shift val c]
    by (cases "i < length buf") (auto simp: leb_loop_out Let_def)
qed

text \<open>
  C40. The unsigned reader has no undefined behaviour on an encoding of at most ten bytes: if one of
  the first ten bytes at the cursor ends the number, or the buffer ends within them, no shift
  reaches the width of the value.
\<close>

theorem parseLeb128_defined:
  assumes "k < 10"
    and "uint (buf ! (nat i + k)) < 128 \<or> length buf \<le> Suc (nat i + k)"
  shows "parseLeb128 buf i \<noteq> Inl Undefined"
  using leb_loop_defined [of 0 k buf "nat i" 0 i] assms by (auto simp: parseLeb128_def)

theorem parseLeb128_defined_witness: "parseLeb128 [0x80, 0x80, 1] 0 \<noteq> Inl Undefined"
  using parseLeb128_defined [of 2 "[0x80, 0x80, 1]" 0] by simp

text \<open>
  Where the readers fall short of the format. Ten continuation bytes shift by 70; the overflow test
  compares sums only, so bits shifted out of the tenth byte are lost without an error; and the sign
  extension starts at the last byte's own shift, so it overwrites that byte's payload.
\<close>

lemma parseLeb128_undefined_shift: "parseLeb128 (replicate 10 0x80 @ [0]) 0 = Inl Undefined"
  by code_simp

lemma parseLeb128_lost_bits: "parseLeb128 (replicate 9 0x80 @ [2]) 0 = Inr (0, 10)"
  by code_simp

lemma parseSignedLeb128_sign:
  "parseSignedLeb128 [0x40] 0 = Inr (- 1, 1)" "sleb128_value [0x40] = - 64"
  by code_simp+

end
