(* ===== verification/Ieee_Double.thy ===== *)
theory Ieee_Double
  imports Prelude "HOL-Library.Log_Nat"
begin

text \<open>
  The part of IEEE 754 binary64 arithmetic the modelled code uses: non-negative values, conversion
  from integers, product and quotient, each rounded to 53 significant bits, ties to even. Values are
  rationals. Magnitudes in the modelled code stay between $2^{-32}$ and $2^{97}$, so neither the
  subnormal range nor overflow to infinity is reached.
\<close>

definition flog2 :: "rat \<Rightarrow> int" where
  "flog2 x =
     (let (n, d) = quotient_of x;
          k = int (floorlog 2 (nat n)) - int (floorlog 2 (nat d))
      in if 2 powi k \<le> x then k else k - 1)"

definition round_even :: "rat \<Rightarrow> int" where
  "round_even x =
     (let f = \<lfloor>x\<rfloor>; r = x - of_int f in
      if r < 1 / 2 then f else if r > 1 / 2 then f + 1 else if even f then f else f + 1)"

definition dbl :: "rat \<Rightarrow> rat" where
  "dbl x = (if x = 0 then 0 else let e = flog2 x - 52 in of_int (round_even (x / 2 powi e)) * 2 powi e)"

definition dbl_mul :: "rat \<Rightarrow> rat \<Rightarrow> rat" where "dbl_mul x y = dbl (x * y)"
definition dbl_div :: "rat \<Rightarrow> rat \<Rightarrow> rat" where "dbl_div x y = dbl (x / y)"

lemma round_even_of_int [simp]: "round_even (of_int n) = n"
  by (simp add: round_even_def)

lemma quotient_of_of_int: "quotient_of (of_int n) = (n, 1)"
  by (simp add: of_int_rat quotient_of_Fract normalize_def)

lemma flog2_le:
  assumes "0 < n" "n < 2 ^ m"
  shows "flog2 (of_int n) < int m"
proof -
  have "floorlog 2 (nat n) \<le> m"
    using assms by (intro floorlog_leI) (auto simp: nat_less_iff)
  then show ?thesis
    by (auto simp: flog2_def quotient_of_of_int Let_def floorlog_def)
qed

lemma dbl_of_int:
  assumes "0 \<le> n" "n < 2 ^ 53"
  shows "dbl (of_int n) = of_int n"
proof (cases "n = 0")
  case False
  with assms have "flog2 (of_int n) - 52 \<le> 0" using flog2_le [of n 53] by simp
  then obtain k where k: "flog2 (of_int n) - 52 = - int k"
    by (metis nonpos_int_cases)
  have "round_even (of_int n * 2 ^ k) = n * 2 ^ k"
    using round_even_of_int [of "n * 2 ^ k"] by simp
  moreover have "rat_of_int n / inverse (2 ^ k) = rat_of_int n * 2 ^ k"
    by (simp add: divide_inverse)
  ultimately show ?thesis
    using False by (simp add: dbl_def Let_def k power_int_minus)
qed (simp add: dbl_def)

text \<open>\<open>flog2\<close> is the binary exponent of a positive value.\<close>

lemma flog2_bounds:
  assumes "0 < x"
  shows "2 powi flog2 x \<le> x" "x < 2 powi (flog2 x + 1)"
proof -
  obtain n d where q: "quotient_of x = (n, d)" by (cases "quotient_of x")
  have d: "0 < d" and x: "x = of_int n / of_int d"
    using quotient_of_denom_pos [OF q] quotient_of_div [OF q] by auto
  with assms have n: "0 < n" by (simp add: zero_less_divide_iff)
  define a b where "a = floorlog 2 (nat n)" and "b = floorlog 2 (nat d)"
  define k where "k = int a - int b"
  have an: "2 ^ (a - 1) \<le> nat n" "nat n < 2 ^ a" and bd: "2 ^ (b - 1) \<le> nat d" "nat d < 2 ^ b"
    using n d floorlog_bounds [of "nat n" 2] floorlog_bounds [of "nat d" 2] by (auto simp: a_def b_def)
  have ab: "0 < a" "0 < b" using n d by (auto simp: a_def b_def floorlog_def)
  have N: "(2 :: rat) powi (int a - 1) \<le> of_int n" "of_int n < (2 :: rat) powi int a"
    and D: "(2 :: rat) powi (int b - 1) \<le> of_int d" "of_int d < (2 :: rat) powi int b"
  proof -
    have "(2 ^ (a - 1) :: int) \<le> n" "n < 2 ^ a" "(2 ^ (b - 1) :: int) \<le> d" "d < 2 ^ b"
      using an bd n d by (simp_all add: nat_less_iff le_nat_iff)
    then have "rat_of_int (2 ^ (a - 1)) \<le> of_int n" "of_int n < rat_of_int (2 ^ a)"
        "rat_of_int (2 ^ (b - 1)) \<le> of_int d" "of_int d < rat_of_int (2 ^ b)"
      by (simp_all only: of_int_le_iff of_int_less_iff)
    then show "(2 :: rat) powi (int a - 1) \<le> of_int n" "of_int n < (2 :: rat) powi int a"
        "(2 :: rat) powi (int b - 1) \<le> of_int d" "of_int d < (2 :: rat) powi int b"
      using ab by (simp_all add: of_nat_diff [symmetric] flip: power_int_of_nat)
  qed
  have "x < 2 powi (int a - (int b - 1))"
    unfolding x using N D n by (subst power_int_diff) (auto intro!: frac_less simp del: power_int_of_nat)
  then have up: "x < 2 powi (k + 1)" by (simp add: k_def algebra_simps)
  have "2 powi ((int a - 1) - int b) \<le> x"
    unfolding x using N D d n by (subst power_int_diff) (auto intro!: frac_le simp del: power_int_of_nat)
  then have lo: "2 powi (k - 1) \<le> x" by (simp add: k_def algebra_simps)
  have "flog2 x = (if 2 powi k \<le> x then k else k - 1)"
    by (simp add: flog2_def q a_def b_def k_def)
  with up lo show "2 powi flog2 x \<le> x" "x < 2 powi (flog2 x + 1)" by auto
qed

lemma flog2_eqI:
  assumes "2 powi k \<le> x" "x < 2 powi (k + 1)"
  shows "flog2 x = k"
proof -
  have x: "0 < x" using assms(1) by (metis less_le_trans zero_less_numeral zero_less_power_int)
  have "(2 :: rat) powi flog2 x < 2 powi (k + 1)" "(2 :: rat) powi k < 2 powi (flog2 x + 1)"
    using assms flog2_bounds [OF x] by linarith+
  then have "flog2 x < k + 1" "k < flog2 x + 1"
    by (metis linorder_not_less one_le_numeral power_int_increasing)+
  then show ?thesis by simp
qed

lemma round_even_eqI:
  assumes "\<bar>x - of_int m\<bar> < 1 / 2"
  shows "round_even x = m"
proof -
  have "\<lfloor>x\<rfloor> = m \<or> \<lfloor>x\<rfloor> = m - 1" using assms by linarith
  then show ?thesis using assms by (auto simp: round_even_def Let_def split: abs_split)
qed

lemma dbl_eqI:
  assumes "2 powi k \<le> x" "x < 2 powi (k + 1)" "\<bar>x / 2 powi (k - 52) - of_int m\<bar> < 1 / 2"
  shows "dbl x = of_int m * 2 powi (k - 52)"
proof -
  have "0 < x" using assms(1) by (metis less_le_trans zero_less_numeral zero_less_power_int)
  then show ?thesis
    using flog2_eqI [OF assms(1,2)] round_even_eqI [OF assms(3)] by (simp add: dbl_def Let_def)
qed

lemmas powi_numeral = power_int_minus power_int_def power_divide

lemma round_even_near: "\<bar>of_int (round_even x) - x\<bar> \<le> 1 / 2"
proof -
  have "of_int \<lfloor>x\<rfloor> \<le> x" "x < of_int \<lfloor>x\<rfloor> + 1" by linarith+
  then show ?thesis unfolding round_even_def Let_def abs_le_iff by (simp split: if_split) linarith
qed

lemma dbl_near:
  assumes "0 < x"
  shows "\<bar>dbl x - x\<bar> \<le> x / 2 ^ 53"
proof -
  define p :: rat where "p = 2 powi (flog2 x - 52)"
  have p: "0 < p" "p * 2 ^ 52 \<le> x"
    using flog2_bounds(1) [OF assms] by (simp_all add: p_def power_int_diff)
  have "dbl x - x = (of_int (round_even (x / p)) - x / p) * p"
    using assms p by (simp add: dbl_def Let_def p_def [symmetric] field_simps)
  then have "\<bar>dbl x - x\<bar> = \<bar>of_int (round_even (x / p)) - x / p\<bar> * p"
    using p by (simp add: abs_mult)
  also have "\<dots> \<le> 1 / 2 * p" using round_even_near p by (intro mult_right_mono) auto
  also have "\<dots> \<le> x / 2 ^ 53" using p by (simp add: field_simps)
  finally show ?thesis .
qed

lemma dbl_eight_tenths: "dbl (8 / 10) = 7205759403792794 / 2 ^ 53"
  using dbl_eqI [of "-1" "8 / 10" 7205759403792794] by (simp add: powi_numeral)

end
