(* ===== verification/Wasm_Blocks.thy ===== *)
theory Wasm_Blocks
  imports Hook_Enum Ieee_Double
begin

text \<open>
  The block tree of the guard checker and its worst-case execution count:
  \<open>WasmBlkInf\<close> and \<open>compute_wce\<close> of \<^verbatim>\<open>src/src/ripple/app/hook/Guard.h\<close>. The C++ node points to its
  parent; here the parent is an argument of \<open>compute_wce\<close> and, while the tree is built, the next
  element of the stack of open blocks. The count is a 64-bit unsigned value multiplied by a double
  and truncated back; a product of $2^{64}$ or more does not fit and is \<open>Undefined\<close>.
\<close>

datatype WasmBlkInf =
  WasmBlkInf (sanity_check: int) (iteration_bound: int) (instruction_count: int)
    (children: "WasmBlkInf list") (start_byte: int) (is_root: bool)

definition new_blk :: "int \<Rightarrow> int \<Rightarrow> int \<Rightarrow> bool \<Rightarrow> WasmBlkInf" where
  "new_blk bound count start rt = WasmBlkInf 0x1234ABCD bound count [] start rt"

definition count_instruction :: "WasmBlkInf \<Rightarrow> WasmBlkInf" where
  "count_instruction b = WasmBlkInf (sanity_check b) (iteration_bound b)
     (u32 (instruction_count b + 1)) (children b) (start_byte b) (is_root b)"

text \<open>
  \<open>add_child\<close> pushes the new node onto its parent's children when the block opens and later changes
  it through the pointer; nothing else is added to the parent while the child is open. Attaching
  the finished node when it closes gives the same tree.
\<close>

definition attach_child :: "WasmBlkInf \<Rightarrow> WasmBlkInf \<Rightarrow> WasmBlkInf" where
  "attach_child c b = WasmBlkInf (sanity_check b) (iteration_bound b) (instruction_count b)
     (children b @ [c]) (start_byte b) (is_root b)"

definition scale_wce :: "int \<Rightarrow> int \<Rightarrow> int \<Rightarrow> fault + int" where
  "scale_wce wce bound pbound =
     (let multiplier = dbl_div (of_int bound) (of_int pbound);
          p = dbl_mul (dbl (of_int wce)) multiplier
      in if p \<ge> 2 ^ 64 then Inl Undefined
         else let w = \<lfloor>p\<rfloor> in Inr (if w < 1 then 1 else w))"

text \<open>The result is the count and \<open>recursion_limit_reached\<close>.\<close>

fun compute_wce :: "WasmBlkInf option \<Rightarrow> WasmBlkInf \<Rightarrow> nat \<Rightarrow> bool \<Rightarrow> fault + (int \<times> bool)"
and compute_wce_sum :: "WasmBlkInf \<Rightarrow> WasmBlkInf list \<Rightarrow> nat \<Rightarrow> bool \<Rightarrow> int \<Rightarrow> fault + (int \<times> bool)"
where
  "compute_wce parent (WasmBlkInf sc bound count chs start rt) level rlr =
     (if level > 16 then Inr (0, True)
      else if sc \<noteq> 0x1234ABCD then Inr (2 ^ 64 - 1, True)
      else if (case parent of None \<Rightarrow> False | Some p \<Rightarrow> sanity_check p \<noteq> 0x1234ABCD)
        then Inr (2 ^ 64 - 1, True)
      else rbind (compute_wce_sum (WasmBlkInf sc bound count chs start rt) chs (level + 1) rlr count)
        (\<lambda>(wce, rlr').
          case parent of
            None \<Rightarrow> Inr (wce, rlr')
          | Some p \<Rightarrow>
              if iteration_bound p = 0 then Inr (wce, rlr')
              else rbind (scale_wce wce bound (iteration_bound p)) (\<lambda>w. Inr (w, rlr'))))"
| "compute_wce_sum blk [] level rlr acc = Inr (acc, rlr)"
| "compute_wce_sum blk (c # cs) level rlr acc =
     rbind (compute_wce (Some blk) c level rlr)
       (\<lambda>(w, rlr'). compute_wce_sum blk cs level rlr' (u64 (acc + w)))"

subsection \<open>What the count means\<close>

text \<open>
  A guard bounds the iterations of its loop over the whole execution of the hook, so a block runs at
  most \<open>iteration_bound\<close> times and contributes its own instructions that many times.
\<close>

fun weighted_count :: "WasmBlkInf \<Rightarrow> int" where
  "weighted_count (WasmBlkInf sc bound count chs start rt) =
     count * bound + sum_list (map weighted_count chs)"

fun blk_height :: "WasmBlkInf \<Rightarrow> nat" where
  "blk_height (WasmBlkInf sc bound count chs start rt) = Suc (foldr max (map blk_height chs) 0)"

text \<open>
  Nested blocks whose bound is a multiple of the bound around them (every plain block, every
  \<^verbatim>\<open>if\<close>, and every loop guarded by outer bound times inner bound), each with an instruction.
\<close>

fun multiples :: "int \<Rightarrow> WasmBlkInf \<Rightarrow> bool" where
  "multiples pbound (WasmBlkInf sc bound count chs start rt) \<longleftrightarrow>
     sc = 0x1234ABCD \<and> 0 < bound \<and> pbound dvd bound \<and> 1 \<le> count \<and>
     (\<forall>c \<in> set chs. multiples bound c)"

lemma weighted_count_nonneg: "multiples pb blk \<Longrightarrow> 0 < weighted_count blk"
proof (induction pb blk rule: multiples.induct)
  case (1 pb sc bound count chs start rt)
  then have "0 \<le> sum_list (map weighted_count chs)"
    by (intro sum_list_nonneg) (auto simp: less_imp_le)
  moreover have "0 < count * bound" using 1 by simp
  ultimately show ?case by simp
qed

lemma weighted_sum_nonneg:
  "\<forall>c \<in> set cs. multiples b c \<Longrightarrow> 0 \<le> sum_list (map weighted_count cs)"
  by (induction cs) (auto dest: weighted_count_nonneg)

lemma dvd_sum_list: "(\<And>x. x \<in> set xs \<Longrightarrow> (d :: int) dvd f x) \<Longrightarrow> d dvd sum_list (map f xs)"
  by (induction xs) auto

lemma weighted_count_dvd: "multiples pb blk \<Longrightarrow> pb dvd weighted_count blk"
proof (induction pb blk rule: multiples.induct)
  case (1 pb sc bound count chs start rt)
  then have "bound dvd sum_list (map weighted_count chs)"
    by (intro dvd_sum_list) auto
  then have "bound dvd weighted_count (WasmBlkInf sc bound count chs start rt)" by simp
  with 1 show ?case by (metis dvd_trans multiples.simps)
qed

lemma foldr_max_le: "foldr max (map f xs) (0 :: nat) \<le> n \<longleftrightarrow> (\<forall>x \<in> set xs. f x \<le> n)"
  by (induction xs) auto

lemma scale_wce_exact:
  assumes "1 \<le> w" "0 < pb" "0 < b" "pb dvd b" "w * (b div pb) < 2 ^ 53"
  shows "scale_wce w b pb = Inr (w * (b div pb))"
proof -
  from assms obtain m where b: "b = pb * m" by blast
  with assms have m: "0 < m" by (simp add: zero_less_mult_iff)
  have wm: "w * m < 2 ^ 53" using assms b by simp
  have "1 * m \<le> w * m" "w * 1 \<le> w * m" using assms(1) m by (auto intro: mult_mono)
  then have lt: "m < 2 ^ 53" "w < 2 ^ 53" using wm by linarith+
  have "rat_of_int b / rat_of_int pb = of_int m" using b assms by simp
  moreover have "dbl (of_int w * of_int m) = of_int (w * m)"
    using dbl_of_int [of "w * m"] wm m assms by simp
  moreover have "1 \<le> w * m" using \<open>1 * m \<le> w * m\<close> m by linarith
  moreover have "rat_of_int (w * m) < 2 ^ 64"
  proof -
    have "rat_of_int (w * m) < rat_of_int (2 ^ 53)" using wm by (simp only: of_int_less_iff)
    then show ?thesis by simp
  qed
  ultimately show ?thesis
    using assms m lt b
    by (simp add: scale_wce_def dbl_div_def dbl_mul_def dbl_of_int Let_def del: of_int_mult)
qed

lemma scale_wce_code [code]:
  "scale_wce w b pb =
     (if 1 \<le> w \<and> 0 < pb \<and> 0 < b \<and> b mod pb = 0 \<and> w * (b div pb) < 2 ^ 53
      then Inr (w * (b div pb))
      else let multiplier = dbl_div (of_int b) (of_int pb);
               p = dbl_mul (dbl (of_int w)) multiplier
           in if p \<ge> 2 ^ 64 then Inl Undefined
              else let w' = \<lfloor>p\<rfloor> in Inr (if w' < 1 then 1 else w'))"
  using scale_wce_exact [of w pb b] by (auto simp: scale_wce_def mod_eq_0_iff_dvd)

lemma compute_wce_exact_aux:
  "multiples pb blk \<Longrightarrow> parent = Some p \<Longrightarrow> iteration_bound p = pb \<Longrightarrow> 0 < pb \<Longrightarrow>
     sanity_check p = 0x1234ABCD \<Longrightarrow> level + blk_height blk \<le> 17 \<Longrightarrow>
     weighted_count blk < 2 ^ 53 \<Longrightarrow>
     compute_wce parent blk level rlr = Inr (weighted_count blk div pb, rlr)"
  "(\<forall>c \<in> set cs. multiples (iteration_bound q) c) \<Longrightarrow> 0 < iteration_bound q \<Longrightarrow>
     sanity_check q = 0x1234ABCD \<Longrightarrow> (\<forall>c \<in> set cs. level + blk_height c \<le> 17) \<Longrightarrow>
     0 \<le> acc \<Longrightarrow> acc * iteration_bound q + sum_list (map weighted_count cs) < 2 ^ 53 \<Longrightarrow>
     compute_wce_sum q cs level rlr acc =
       Inr (acc + sum_list (map weighted_count cs) div iteration_bound q, rlr)"
proof (induction parent blk level rlr and q cs level rlr acc arbitrary: pb p
    rule: compute_wce_compute_wce_sum.induct)
  case (1 parent sc bound count chs start rt level rlr)
  let ?blk = "WasmBlkInf sc bound count chs start rt"
  let ?S = "sum_list (map weighted_count chs)"
  from "1.prems" have wf: "sc = 0x1234ABCD" "0 < bound" "pb dvd bound" "1 \<le> count"
      "\<forall>c \<in> set chs. multiples bound c" and lvl: "\<not> level > 16" by auto
  have dvd: "bound dvd ?S" using wf weighted_count_dvd by (intro dvd_sum_list) auto
  have pos: "0 \<le> ?S" using wf by (intro weighted_sum_nonneg)
  have ht: "\<forall>c \<in> set chs. level + blk_height c \<le> 16"
    using "1.prems"(6) lvl foldr_max_le [of blk_height chs "16 - level"] by auto
  have sum: "compute_wce_sum ?blk chs (level + 1) rlr count = Inr (count + ?S div bound, rlr)"
    using "1.IH" [OF lvl] "1.prems" wf ht by auto
  define w where "w = count + ?S div bound"
  define W where "W = weighted_count ?blk"
  have "0 \<le> ?S div bound" using wf pos by (simp add: pos_imp_zdiv_nonneg_iff)
  then have w: "1 \<le> w" using wf by (simp add: w_def)
  have wb: "w * bound = W" using dvd by (simp add: w_def W_def algebra_simps)
  have W: "0 < W" "W < 2 ^ 53"
    using weighted_count_nonneg [OF "1.prems"(1)] "1.prems"(7) by (simp_all only: W_def)
  obtain m where m: "bound = pb * m" using wf(3) by blast
  have "W = pb * (w * m)" unfolding wb [symmetric] m by (simp only: ac_simps)
  then have wm: "w * (bound div pb) = W div pb" using m "1.prems"(4) by simp
  have "W div pb \<le> W" using W zdiv_mono2 [of W 1 pb] "1.prems"(4) by simp
  then have "scale_wce w bound pb = Inr (W div pb)"
    using scale_wce_exact [OF w "1.prems"(4) wf(2,3)] W wm by simp
  then show ?case using "1.prems" wf lvl sum by (simp add: w_def W_def)
next
  case (2 blk level rlr acc)
  then show ?case by simp
next
  case (3 q c cs level rlr acc)
  let ?b = "iteration_bound q"
  let ?S = "sum_list (map weighted_count cs)"
  have c: "multiples ?b c" "0 < weighted_count c" and pos: "0 \<le> ?S"
    using "3.prems"(1) weighted_count_nonneg [of ?b c] weighted_sum_nonneg [of cs ?b] by auto
  have acc: "0 \<le> acc * ?b" using "3.prems" by simp
  have lt: "weighted_count c < 2 ^ 53" using "3.prems"(6) acc pos by (simp only: list.map sum_list.Cons)
  have one: "compute_wce (Some q) c level rlr = Inr (weighted_count c div ?b, rlr)"
    using "3.prems" c lt by (intro "3.IH"(1)) auto
  let ?acc = "acc + weighted_count c div ?b"
  have q: "weighted_count c div ?b * ?b = weighted_count c"
    using weighted_count_dvd [OF c(1)] by simp
  have acc': "0 \<le> ?acc" "?acc * ?b + ?S < 2 ^ 53"
    using "3.prems" c q by (auto simp: algebra_simps pos_imp_zdiv_nonneg_iff)
  have "?acc \<le> ?acc * ?b" using acc'(1) "3.prems"(2) by (simp add: mult_le_cancel_left1)
  then have u: "u64 ?acc = ?acc" using acc' pos by (intro u64_id) auto
  have "compute_wce_sum q cs level rlr ?acc = Inr (?acc + ?S div ?b, rlr)"
    using "3.prems" acc' one u by (intro "3.IH"(2) [of _ "weighted_count c div ?b" rlr, unfolded u]) auto
  moreover have "(weighted_count c + ?S) div ?b = weighted_count c div ?b + ?S div ?b"
    using weighted_count_dvd [OF c(1)] by (simp add: div_plus_div_distrib_dvd_left)
  ultimately show ?case using one u by simp
qed

lemma compute_wce_limit_aux:
  "compute_wce parent blk level rlr = Inr (w, r) \<Longrightarrow>
     (rlr \<longrightarrow> r) \<and> (17 < level + blk_height blk \<longrightarrow> r)"
  "compute_wce_sum q cs level rlr acc = Inr (w, r) \<Longrightarrow>
     (rlr \<longrightarrow> r) \<and> ((\<exists>c \<in> set cs. 17 < level + blk_height c) \<longrightarrow> r)"
proof (induction parent blk level rlr and q cs level rlr acc arbitrary: w r and w r
    rule: compute_wce_compute_wce_sum.induct)
  case (1 parent sc bound count chs start rt level rlr)
  show ?case
  proof (cases "level > 16 \<or> sc \<noteq> 0x1234ABCD \<or>
      (case parent of None \<Rightarrow> False | Some p \<Rightarrow> sanity_check p \<noteq> 0x1234ABCD)")
    case True
    then show ?thesis using "1.prems" by (auto split: if_splits)
  next
    case False
    then obtain w' where w': "compute_wce_sum (WasmBlkInf sc bound count chs start rt) chs
        (level + 1) rlr count = Inr (w', r)"
      using "1.prems" by (auto simp: res_simps split: if_splits option.splits)
    have "\<exists>c \<in> set chs. 17 < level + 1 + blk_height c"
      if "17 < level + blk_height (WasmBlkInf sc bound count chs start rt)"
      using that False foldr_max_le [of blk_height chs "16 - level"] by fastforce
    then show ?thesis using "1.IH" [OF _ _ _ w'] False by auto
  qed
next
  case (2 blk level rlr acc)
  then show ?case by simp
next
  case (3 q c cs level rlr acc)
  then show ?case by (fastforce simp: res_simps)
qed

text \<open>
  C22. The computed worst case is exact: for a block tree whose bounds are multiples of the bounds
  around them, nested at most sixteen deep, \<open>compute_wce\<close> returns the sum over all blocks of
  instructions times iteration bound, with no rounding error, no wrap-around and no limit flag, as
  long as that sum is below $2^{53}$.
\<close>

theorem compute_wce_exact:
  assumes "sanity_check blk = 0x1234ABCD" "iteration_bound blk = 1" "0 \<le> instruction_count blk"
    and "\<forall>c \<in> set (children blk). multiples 1 c"
    and "blk_height blk \<le> 17" "weighted_count blk < 2 ^ 53"
  shows "compute_wce None blk 0 False = Inr (weighted_count blk, False)"
proof (cases blk)
  case (WasmBlkInf sc bound count chs start rt)
  then show ?thesis
    using assms compute_wce_exact_aux(2) [of chs blk 1 count False]
      foldr_max_le [of blk_height chs 16] by auto
qed

theorem compute_wce_exact_witness:
  "compute_wce None (WasmBlkInf 0x1234ABCD 1 5
       [WasmBlkInf 0x1234ABCD 10 7 [WasmBlkInf 0x1234ABCD 30 2 [] 9 False] 4 False] 0 True) 0 False
     = Inr (135, False)"
  using compute_wce_exact [of "WasmBlkInf 0x1234ABCD 1 5
       [WasmBlkInf 0x1234ABCD 10 7 [WasmBlkInf 0x1234ABCD 30 2 [] 9 False] 4 False] 0 True"]
  by simp

text \<open>
  C39. The nesting limit cannot be evaded: whenever the count is computed at all for a tree with more
  than sixteen levels below its root, \<open>recursion_limit_reached\<close> is set.
\<close>

theorem compute_wce_limit:
  assumes "compute_wce None blk 0 False = Inr (w, r)" "17 < blk_height blk"
  shows "r"
  using compute_wce_limit_aux(1) [OF assms(1)] assms(2) by simp

abbreviation (input) leaf1 :: WasmBlkInf where
  "leaf1 \<equiv> WasmBlkInf 0x1234ABCD 1 1 [] 0 False"

abbreviation (input) nest1 :: "WasmBlkInf \<Rightarrow> WasmBlkInf" where
  "nest1 b \<equiv> WasmBlkInf 0x1234ABCD 1 1 [b] 0 False"

theorem compute_wce_limit_witness:
  "\<exists>w. compute_wce None
     (nest1 (nest1 (nest1 (nest1 (nest1 (nest1 (nest1 (nest1 (nest1 (nest1 (nest1 (nest1 (nest1 (nest1 (nest1 (nest1 (nest1 leaf1)))))))))))))))))
     0 False = Inr (w, True)"
proof -
  let ?t = "nest1 (nest1 (nest1 (nest1 (nest1 (nest1 (nest1 (nest1 (nest1 (nest1 (nest1 (nest1 (nest1 (nest1 (nest1 (nest1 (nest1 leaf1))))))))))))))))"
  have c: "compute_wce None ?t 0 False = Inr (17, True)" by (simp add: scale_wce_exact)
  have h: "17 < blk_height ?t" by simp
  show ?thesis using c compute_wce_limit [OF c h] by blast
qed

lemma scale_wce_199: "scale_wce 199 10 1000 = Inr 1"
proof -
  have 1: "dbl (1/100) = 5764607523034235/576460752303423488"
    by (subst dbl_eqI [of "-7" _ 5764607523034235]) (simp_all add: powi_numeral)
  have 2: "dbl (1147156897083812765/576460752303423488) = 8962163258467287 / 4503599627370496"
    by (subst dbl_eqI [of "0" _ 8962163258467287]) (simp_all add: powi_numeral)
  have "\<lfloor>8962163258467287 / 4503599627370496 :: rat\<rfloor> = 1" by (rule floor_unique) simp_all
  then show ?thesis using dbl_of_int [of 199]
    by (simp add: scale_wce_def dbl_div_def dbl_mul_def 1 2 Let_def)
qed

text \<open>
  Where bounds are not multiples the truncation at every level loses counts: a block of 199
  instructions bounded by 10 inside a loop bounded by 1000 can execute 1990 instructions, and is
  counted as 1000.
\<close>

lemma compute_wce_underestimates:
  "compute_wce None (WasmBlkInf 0x1234ABCD 1 0
     [WasmBlkInf 0x1234ABCD 1000 0 [WasmBlkInf 0x1234ABCD 10 199 [] 0 False] 0 False] 0 True) 0 False
     = Inr (1000, False)"
  "weighted_count (WasmBlkInf 0x1234ABCD 1 0
     [WasmBlkInf 0x1234ABCD 1000 0 [WasmBlkInf 0x1234ABCD 10 199 [] 0 False] 0 False] 0 True) = 1990"
proof -
  show "compute_wce None (WasmBlkInf 0x1234ABCD 1 0 [WasmBlkInf 0x1234ABCD 1000 0
      [WasmBlkInf 0x1234ABCD 10 199 [] 0 False] 0 False] 0 True) 0 False = Inr (1000, False)"
    by (simp add: scale_wce_exact scale_wce_199)
qed simp

end
