(* ===== verification/Guard_Check.thy ===== *)
theory Guard_Check
  imports Leb128 Wasm_Blocks
begin

unbundle bit_operations_syntax

text \<open>
  \<open>check_guard\<close> of \<^verbatim>\<open>src/src/ripple/app/hook/Guard.h\<close>: one pass over the instructions of a function
  body that builds the block tree, insists on a guard call at the head of every loop, refuses
  indirect calls, calls outside the imports and \<^verbatim>\<open>memory.grow\<close>, and bounds the worst-case
  instruction count. \<open>return {}\<close> with its log line is a rejection with that log code. The cursor is a
  C \<open>int\<close>; where the code compares it with \<open>wasm.size()\<close> a negative value becomes huge and fails the
  test. Reading the vector out of range is \<open>Undefined\<close>.

  Each group of opcodes is a definition of its own, in the order of the code; \<open>cg_instr\<close> dispatches,
  \<open>cg_step\<close> is one iteration of the loop and \<open>cg_loop\<close> the loop.
\<close>

subsection \<open>Reading the module\<close>

definition REQUIRE :: "blob \<Rightarrow> int \<Rightarrow> int \<Rightarrow> fault + unit" where
  "REQUIRE wasm i x = require (0 \<le> i + x \<and> i + x \<le> int (length wasm)) (Reject SHORT_HOOK)"

definition wasm_at :: "blob \<Rightarrow> int \<Rightarrow> fault + int" where
  "wasm_at wasm i = (if 0 \<le> i \<and> i < int (length wasm) then Inr (uint (wasm ! nat i)) else Inl Undefined)"

definition skip_leb :: "blob \<Rightarrow> int \<Rightarrow> fault + int" where
  "skip_leb wasm i = rbind (REQUIRE wasm i 1) (\<lambda>_. rbind (parseLeb128 wasm i) (\<lambda>(v, i'). Inr i'))"

definition skip_bytes :: "blob \<Rightarrow> int \<Rightarrow> int \<Rightarrow> fault + int" where
  "skip_bytes wasm n i = rbind (REQUIRE wasm i n) (\<lambda>_. Inr (i + n))"

definition GUARD_ERROR :: fault where "GUARD_ERROR = Reject GUARD_MISSING"

definition MAX_GUARD_CALLS :: int where "MAX_GUARD_CALLS = 1024"

subsection \<open>Instruction groups without effect on the block tree\<close>

fun skip_lebs :: "blob \<Rightarrow> nat \<Rightarrow> int \<Rightarrow> fault + int" where
  "skip_lebs wasm 0 i = Inr i"
| "skip_lebs wasm (Suc n) i = rbind (skip_leb wasm i) (skip_lebs wasm n)"

definition cg_br_table :: "blob \<Rightarrow> int \<Rightarrow> fault + int" where
  "cg_br_table wasm i =
     rbind (parseLeb128 wasm i) (\<lambda>(v, i').
       let vec_count = s32 v in
       rbind (skip_lebs wasm (nat vec_count) i') (skip_leb wasm))"

definition cg_reference :: "blob \<Rightarrow> int \<Rightarrow> int \<Rightarrow> fault + int" where
  "cg_reference wasm instr i =
     (if instr = 0xD0 then
        rbind (REQUIRE wasm i 1) (\<lambda>_. rbind (wasm_at wasm i) (\<lambda>t.
          if t = 0x70 \<or> t = 0x6F then Inr (i + 1) else Inl GUARD_ERROR))
      else if instr = 0xD2 then skip_leb wasm i
      else Inr i)"

fun cg_select_types :: "blob \<Rightarrow> nat \<Rightarrow> int \<Rightarrow> fault + int" where
  "cg_select_types wasm 0 i = Inr i"
| "cg_select_types wasm (Suc n) i =
     rbind (REQUIRE wasm i 1) (\<lambda>_. rbind (wasm_at wasm i) (\<lambda>v.
       if (v \<ge> 0x7B \<and> v \<le> 0x7F) \<or> v = 0x70 \<or> v = 0x6F then cg_select_types wasm n (i + 1)
       else Inl GUARD_ERROR))"

definition cg_parametric :: "blob \<Rightarrow> int \<Rightarrow> int \<Rightarrow> fault + int" where
  "cg_parametric wasm instr i =
     (if instr = 0x1C then
        rbind (REQUIRE wasm i 1) (\<lambda>_. rbind (parseLeb128 wasm i) (\<lambda>(vec_count, i').
          cg_select_types wasm (nat vec_count) i'))
      else Inr i)"

definition cg_table_fc :: "blob \<Rightarrow> int \<Rightarrow> int \<Rightarrow> int \<Rightarrow> fault + int" where
  "cg_table_fc wasm rulesVersion instr i =
     rbind (REQUIRE wasm i 1) (\<lambda>_.
       if instr \<noteq> 0xFC then rbind (parseLeb128 wasm i) (\<lambda>(v, i'). Inr i')
       else rbind (parseLeb128 wasm i) (\<lambda>(fc_type, i).
         rbind (REQUIRE wasm i 1) (\<lambda>_.
           if fc_type \<ge> 12 \<and> fc_type \<le> 17 then
             rbind (parseLeb128 wasm i) (\<lambda>(v, i).
               if fc_type = 12 \<or> fc_type = 14 then skip_leb wasm i else Inr i)
           else if fc_type = 8 then
             rbind (parseLeb128 wasm i) (\<lambda>(v, i). skip_bytes wasm 1 i)
           else if fc_type = 9 then rbind (parseLeb128 wasm i) (\<lambda>(v, i). Inr i)
           else if fc_type = 10 then
             (if rulesVersion AND 2 \<noteq> 0 then Inl GUARD_ERROR else skip_bytes wasm 2 i)
           else if fc_type = 11 then
             (if rulesVersion AND 2 \<noteq> 0 then Inl GUARD_ERROR else Inr (i + 1))
           else if fc_type \<le> 7 then Inr i
           else Inl GUARD_ERROR)))"

definition cg_memory :: "blob \<Rightarrow> int \<Rightarrow> fault + int" where
  "cg_memory wasm i = rbind (skip_leb wasm i) (skip_leb wasm)"

definition cg_memory2 :: "blob \<Rightarrow> int \<Rightarrow> int \<Rightarrow> fault + int" where
  "cg_memory2 wasm instr i =
     rbind (REQUIRE wasm i 1) (\<lambda>_. if instr = 0x40 then Inl (Reject MEMORY_GROW) else Inr (i + 1))"

definition cg_vector :: "blob \<Rightarrow> int \<Rightarrow> fault + int" where
  "cg_vector wasm i =
     rbind (REQUIRE wasm i 1) (\<lambda>_. rbind (parseLeb128 wasm i) (\<lambda>(v, i).
       if v \<le> 11 then cg_memory wasm i
       else if v \<ge> 84 \<and> v \<le> 91 then rbind (cg_memory wasm i) (skip_bytes wasm 1)
       else if v \<ge> 21 \<and> v \<le> 34 then skip_bytes wasm 1 i
       else if v = 12 \<or> v = 13 then skip_bytes wasm 16 i
       else Inr i))"

subsection \<open>The state of the pass\<close>

text \<open>
  \<open>open_blocks\<close> is the chain from \<open>current\<close> through its \<open>parent\<close> pointers to the root; \<open>pos\<close> is \<open>i\<close>.
\<close>

record cg_state =
  pos :: int
  guard_count :: int
  block_depth :: int
  open_blocks :: "WasmBlkInf list"

text \<open>What \<open>check_guard\<close> is told about the module.\<close>

record cg_params =
  cg_wasm :: blob
  cg_end_offset :: int
  guard_func_idx :: int
  last_import_idx :: int
  rules_version :: int

definition cg_expect :: "blob \<Rightarrow> int \<Rightarrow> int \<Rightarrow> fault + int" where
  "cg_expect wasm opcode i =
     rbind (REQUIRE wasm i 1) (\<lambda>_. rbind (wasm_at wasm i) (\<lambda>b.
       if b \<noteq> opcode then Inl GUARD_ERROR else Inr (i + 1)))"

text \<open>The guard call at the head of a loop: the iteration bound, the cursor and \<open>guard_count\<close>.\<close>

definition cg_loop_guard :: "cg_params \<Rightarrow> int \<Rightarrow> int \<Rightarrow> fault + (int \<times> int \<times> int)" where
  "cg_loop_guard P i gc =
     rbind (cg_expect (cg_wasm P) 0x41 i) (\<lambda>i.
     rbind (parseSignedLeb128 (cg_wasm P) i) (\<lambda>(_, i).
     rbind (cg_expect (cg_wasm P) 0x41 i) (\<lambda>i.
     rbind (parseLeb128 (cg_wasm P) i) (\<lambda>(b, i).
     let iteration_bound = u32 b in
     rbind (cg_expect (cg_wasm P) 0x10 i) (\<lambda>i.
     rbind (parseLeb128 (cg_wasm P) i) (\<lambda>(call_func_idx, i).
     if iteration_bound = 0 then Inl GUARD_ERROR
     else if call_func_idx \<noteq> u64 (guard_func_idx P) then Inl GUARD_ERROR
     else if gc > MAX_GUARD_CALLS then Inl GUARD_ERROR
     else Inr (iteration_bound, i, u32 (gc + 1))))))))"

text \<open>Past the block's result type: a one-byte value type or a signed LEB128 type index.\<close>

definition cg_block_type :: "blob \<Rightarrow> int \<Rightarrow> fault + int" where
  "cg_block_type wasm i =
     rbind (REQUIRE wasm i 1) (\<lambda>_. rbind (wasm_at wasm i) (\<lambda>block_type.
       if (block_type \<ge> 0x7C \<and> block_type \<le> 0x7F) \<or> block_type = 0x7B \<or> block_type = 0x70 \<or>
          block_type = 0x40 \<or> block_type = 0x6F
       then Inr (i + 1)
       else rbind (parseSignedLeb128 wasm i) (\<lambda>(_, i). Inr i)))"

definition cg_block :: "cg_params \<Rightarrow> int \<Rightarrow> cg_state \<Rightarrow> fault + cg_state" where
  "cg_block P instr s =
     rbind (cg_block_type (cg_wasm P) (pos s)) (\<lambda>i.
     let bound = (if tl (open_blocks s) = [] then 1 else iteration_bound (hd (open_blocks s))) in
     rbind (if instr = 0x03 then cg_loop_guard P i (guard_count s)
            else Inr (bound, i, guard_count s)) (\<lambda>(bound, i, gc).
     Inr (s\<lparr>pos := i, guard_count := gc, block_depth := block_depth s + 1,
            open_blocks := new_blk bound 0 i False # open_blocks s\<rparr>)))"

text \<open>The second component says whether the loop is left (\<open>break\<close>).\<close>

definition cg_end :: "cg_params \<Rightarrow> cg_state \<Rightarrow> fault + (cg_state \<times> bool)" where
  "cg_end P s =
     (let depth = block_depth s - 1 in
      case open_blocks s of
        [] \<Rightarrow> Inl Undefined
      | [_] \<Rightarrow>
          if depth = - 1 \<and> pos s \<ge> cg_end_offset P then Inr (s\<lparr>block_depth := depth\<rparr>, True)
          else Inl GUARD_ERROR
      | c # p # rest \<Rightarrow>
          if depth < 0 then Inl GUARD_ERROR
          else if sanity_check p \<noteq> 0x1234ABCD then Inl GUARD_ERROR
          else Inr (s\<lparr>block_depth := depth, open_blocks := attach_child c p # rest\<rparr>, False))"

definition cg_call :: "cg_params \<Rightarrow> cg_state \<Rightarrow> fault + cg_state" where
  "cg_call P s =
     rbind (REQUIRE (cg_wasm P) (pos s) 1) (\<lambda>_.
     rbind (parseLeb128 (cg_wasm P) (pos s)) (\<lambda>(callee_idx, i).
     if callee_idx > u64 (last_import_idx P) then Inl (Reject CALL_ILLEGAL)
     else if callee_idx = u64 (guard_func_idx P) then
       (if guard_count s > MAX_GUARD_CALLS then Inl GUARD_ERROR
        else Inr (s\<lparr>pos := i, guard_count := u32 (guard_count s + 1)\<rparr>))
     else Inr (s\<lparr>pos := i\<rparr>)))"

definition advance_with :: "(int \<Rightarrow> fault + int) \<Rightarrow> cg_state \<Rightarrow> fault + (cg_state \<times> bool)" where
  "advance_with f s = rbind (f (pos s)) (\<lambda>i. Inr (s\<lparr>pos := i\<rparr>, False))"

definition cg_instr :: "cg_params \<Rightarrow> int \<Rightarrow> cg_state \<Rightarrow> fault + (cg_state \<times> bool)" where
  "cg_instr P instr s =
     (let w = cg_wasm P in
      if instr = 0x00 \<or> instr = 0x01 \<or> instr = 0x05 then Inr (s, False)
      else if instr = 0x02 \<or> instr = 0x03 \<or> instr = 0x04 then
        rbind (cg_block P instr s) (\<lambda>s. Inr (s, False))
      else if instr = 0x0B then cg_end P s
      else if instr = 0x0C \<or> instr = 0x0D then advance_with (skip_leb w) s
      else if instr = 0x0E then advance_with (cg_br_table w) s
      else if instr = 0x0F then Inr (s, False)
      else if instr = 0x10 then rbind (cg_call P s) (\<lambda>s. Inr (s, False))
      else if instr = 0x11 then Inl (Reject CALL_INDIRECT)
      else if instr \<ge> 0xD0 \<and> instr \<le> 0xD2 then advance_with (cg_reference w instr) s
      else if instr = 0x1A \<or> instr = 0x1B \<or> instr = 0x1C then advance_with (cg_parametric w instr) s
      else if instr \<ge> 0x20 \<and> instr \<le> 0x24 then advance_with (skip_leb w) s
      else if instr = 0x25 \<or> instr = 0x26 \<or> instr = 0xFC then
        advance_with (cg_table_fc w (rules_version P) instr) s
      else if instr \<ge> 0x28 \<and> instr \<le> 0x3E then advance_with (cg_memory w) s
      else if instr = 0x3F \<or> instr = 0x40 then advance_with (cg_memory2 w instr) s
      else if instr = 0x41 \<or> instr = 0x42 then advance_with (skip_leb w) s
      else if instr = 0x43 then advance_with (skip_bytes w 4) s
      else if instr = 0x44 then advance_with (skip_bytes w 8) s
      else if instr \<ge> 0x45 \<and> instr \<le> 0xC4 then Inr (s, False)
      else if instr = 0xFD then advance_with (cg_vector w) s
      else Inl GUARD_ERROR)"

definition count_current :: "cg_state \<Rightarrow> cg_state" where
  "count_current s = s\<lparr>pos := pos s + 1,
     open_blocks := (case open_blocks s of [] \<Rightarrow> [] | c # rest \<Rightarrow> count_instruction c # rest)\<rparr>"

definition cg_step :: "cg_params \<Rightarrow> cg_state \<Rightarrow> fault + (cg_state \<times> bool)" where
  "cg_step P s =
     rbind (REQUIRE (cg_wasm P) (pos s) 1) (\<lambda>_. rbind (wasm_at (cg_wasm P) (pos s)) (\<lambda>instr.
       cg_instr P instr (count_current s)))"

subsection \<open>The cursor moves forward and stays inside the module\<close>

definition adv :: "blob \<Rightarrow> int \<Rightarrow> int \<Rightarrow> bool" where
  "adv wasm i i' \<longleftrightarrow> i \<le> i' \<and> (0 \<le> i \<longrightarrow> i \<le> int (length wasm) \<longrightarrow> i' \<le> int (length wasm))"

named_theorems adv_rules \<open>each reader advances the cursor\<close>

lemma adv_refl [simp]: "adv wasm i i"
  by (simp add: adv_def)

lemma adv_trans: "adv wasm i j \<Longrightarrow> adv wasm j k \<Longrightarrow> adv wasm i k"
  by (auto simp: adv_def)

lemma REQUIRE_ok [simp]:
  "REQUIRE wasm i x = Inr u \<longleftrightarrow> 0 \<le> i + x \<and> i + x \<le> int (length wasm)"
  by (simp add: REQUIRE_def res_simps)

lemma wasm_at_ok: "wasm_at wasm i = Inr b \<Longrightarrow> 0 \<le> i \<and> i < int (length wasm) \<and> b = uint (wasm ! nat i)"
  by (simp add: wasm_at_def split: if_splits)

lemma adv_leb [adv_rules]: "parseLeb128 wasm i = Inr (v, i') \<Longrightarrow> adv wasm i i'"
  using parseLeb128_range [of wasm i v i'] by (cases "0 \<le> i \<and> i < int (length wasm)") (auto simp: adv_def)

lemma adv_sleb [adv_rules]: "parseSignedLeb128 wasm i = Inr (v, i') \<Longrightarrow> adv wasm i i'"
  using parseSignedLeb128_range [of wasm i v i']
  by (cases "0 \<le> i \<and> i < int (length wasm)") (auto simp: adv_def)

lemma adv_skip_leb [adv_rules]: "skip_leb wasm i = Inr i' \<Longrightarrow> adv wasm i i'"
  by (auto simp: skip_leb_def res_simps intro: adv_rules)

lemma adv_skip_bytes [adv_rules]: "skip_bytes wasm n i = Inr i' \<Longrightarrow> 0 \<le> n \<Longrightarrow> adv wasm i i'"
  by (auto simp: skip_bytes_def res_simps adv_def)

lemma adv_byte: "0 \<le> i + 1 \<Longrightarrow> i + 1 \<le> int (length wasm) \<Longrightarrow> adv wasm i (i + 1)"
  by (simp add: adv_def)

lemma adv_skip_lebs [adv_rules]: "skip_lebs wasm n i = Inr i' \<Longrightarrow> adv wasm i i'"
  by (induction n arbitrary: i) (auto simp: res_simps intro: adv_rules adv_trans)

lemma adv_br_table [adv_rules]: "cg_br_table wasm i = Inr i' \<Longrightarrow> adv wasm i i'"
  by (auto simp: cg_br_table_def res_simps Let_def intro: adv_trans dest!: adv_rules)

lemma adv_reference [adv_rules]: "cg_reference wasm instr i = Inr i' \<Longrightarrow> adv wasm i i'"
  by (auto simp: cg_reference_def res_simps intro: adv_rules adv_byte split: if_splits)

lemma adv_select_types [adv_rules]: "cg_select_types wasm n i = Inr i' \<Longrightarrow> adv wasm i i'"
  by (induction n arbitrary: i) (auto simp: res_simps intro: adv_trans adv_byte split: if_splits)

lemma adv_parametric [adv_rules]: "cg_parametric wasm instr i = Inr i' \<Longrightarrow> adv wasm i i'"
  by (auto simp: cg_parametric_def res_simps intro: adv_trans dest!: adv_rules split: if_splits)

lemma adv_table_fc [adv_rules]: "cg_table_fc wasm rv instr i = Inr i' \<Longrightarrow> adv wasm i i'"
  by (auto simp: cg_table_fc_def res_simps intro: adv_trans adv_byte
      dest!: adv_leb adv_skip_leb adv_skip_bytes split: if_splits)

lemma adv_memory [adv_rules]: "cg_memory wasm i = Inr i' \<Longrightarrow> adv wasm i i'"
  by (auto simp: cg_memory_def res_simps intro: adv_trans adv_rules)

lemma adv_memory2 [adv_rules]: "cg_memory2 wasm instr i = Inr i' \<Longrightarrow> adv wasm i i'"
  by (auto simp: cg_memory2_def res_simps intro: adv_byte split: if_splits)

lemma adv_vector [adv_rules]: "cg_vector wasm i = Inr i' \<Longrightarrow> adv wasm i i'"
  by (auto simp: cg_vector_def res_simps intro: adv_trans
      dest!: adv_leb adv_memory adv_skip_bytes split: if_splits)

lemma adv_expect [adv_rules]: "cg_expect wasm opc i = Inr i' \<Longrightarrow> adv wasm i i'"
  by (auto simp: cg_expect_def res_simps intro: adv_byte split: if_splits)

lemma adv_loop_guard: "cg_loop_guard P i gc = Inr (b, i', gc') \<Longrightarrow> adv (cg_wasm P) i i'"
  unfolding cg_loop_guard_def
  by (auto simp: res_simps Let_def dest!: adv_expect adv_leb adv_sleb split: if_splits)
     (meson adv_trans)

lemma adv_block_type: "cg_block_type wasm i = Inr i' \<Longrightarrow> adv wasm i i'"
  by (auto simp: cg_block_type_def res_simps intro: adv_byte dest!: adv_sleb split: if_splits)

lemma adv_block: "cg_block P instr s = Inr s' \<Longrightarrow> adv (cg_wasm P) (pos s) (pos s')"
  unfolding cg_block_def
  by (auto simp: res_simps Let_def intro: adv_trans dest!: adv_loop_guard adv_block_type
      split: if_splits)

lemma adv_end: "cg_end P s = Inr (s', b) \<Longrightarrow> pos s' = pos s"
  by (auto simp: cg_end_def Let_def split: if_splits list.splits)

lemma adv_call: "cg_call P s = Inr s' \<Longrightarrow> adv (cg_wasm P) (pos s) (pos s')"
  by (auto simp: cg_call_def res_simps dest!: adv_leb split: if_splits)

lemma advance_with_ok:
  "advance_with f s = Inr (s', b) \<longleftrightarrow> (\<exists>i. f (pos s) = Inr i \<and> s' = s\<lparr>pos := i\<rparr> \<and> \<not> b)"
  by (auto simp: advance_with_def res_simps)

lemma adv_instr: "cg_instr P instr s = Inr (s', b) \<Longrightarrow> adv (cg_wasm P) (pos s) (pos s')"
  by (auto simp: cg_instr_def Let_def res_simps advance_with_ok
      dest: adv_block adv_call adv_end adv_rules adv_skip_bytes [where n = 4] adv_skip_bytes [where n = 8]
      split: if_splits)

lemma cg_step_pos:
  assumes "cg_step P s = Inr (s', b)"
  shows "0 \<le> pos s \<and> pos s < pos s' \<and> pos s' \<le> int (length (cg_wasm P))"
  using assms
  by (fastforce simp: cg_step_def res_simps count_current_def adv_def dest!: wasm_at_ok adv_instr)

subsection \<open>The pass\<close>

function cg_loop :: "cg_params \<Rightarrow> cg_state \<Rightarrow> fault + cg_state" where
  "cg_loop P s =
     (if pos s < cg_end_offset P then
        rbind (cg_step P s) (\<lambda>(s', stop). if stop then Inr s' else cg_loop P s')
      else Inr s)"
  by pat_completeness auto
termination
  by (relation "measure (\<lambda>(P, s). nat (cg_end_offset P - pos s))") (auto dest!: cg_step_pos)

declare cg_loop.simps [simp del]

fun close_blocks :: "WasmBlkInf list \<Rightarrow> WasmBlkInf" where
  "close_blocks (c # p # rest) = close_blocks (attach_child c p # rest)"
| "close_blocks [r] = r"
| "close_blocks [] = new_blk 1 0 0 True"

definition cg_init :: "int \<Rightarrow> cg_state" where
  "cg_init start_offset =
     \<lparr>pos = start_offset, guard_count = 0, block_depth = 0,
      open_blocks = [new_blk 1 0 start_offset True]\<rparr>"

definition check_guard_params :: "blob \<Rightarrow> int \<Rightarrow> int \<Rightarrow> int \<Rightarrow> int \<Rightarrow> cg_params" where
  "check_guard_params wasm end_offset gfi lii rulesVersion =
     \<lparr>cg_wasm = wasm,
      cg_end_offset = (if end_offset \<le> 0 then int (length wasm) else end_offset),
      guard_func_idx = gfi, last_import_idx = lii, rules_version = rulesVersion\<rparr>"

definition check_guard :: "blob \<Rightarrow> int \<Rightarrow> int \<Rightarrow> int \<Rightarrow> int \<Rightarrow> int \<Rightarrow> fault + int" where
  "check_guard wasm start_offset end_offset gfi lii rulesVersion =
     rbind (cg_loop (check_guard_params wasm end_offset gfi lii rulesVersion) (cg_init start_offset))
       (\<lambda>s. rbind (compute_wce None (close_blocks (open_blocks s)) 0 False)
         (\<lambda>(wce, recursion_limit_reached).
           if recursion_limit_reached then Inl (Reject NESTING_LIMIT)
           else if wce \<ge> 0xFFFF then Inl (Reject INSTRUCTION_EXCESS)
           else Inr wce))"

end
