(* ===== verification/Guard_Sound.thy ===== *)
theory Guard_Sound
  imports Guard_Check
begin

text \<open>
  What acceptance by \<open>check_guard\<close> guarantees. \<open>visited\<close> relates a state of the pass to the states at
  the head of its later iterations, so a visited state marks the offset of an instruction of the
  body. Every property of an accepted body is proved for every visited state.
\<close>

subsection \<open>Visited instructions\<close>

inductive visited :: "cg_params \<Rightarrow> cg_state \<Rightarrow> cg_state \<Rightarrow> bool" for P where
  here: "visited P s s"
| further: "pos s < cg_end_offset P \<Longrightarrow> cg_step P s = Inr (s', False) \<Longrightarrow> visited P s' t \<Longrightarrow> visited P s t"

inductive_cases visitedE: "visited P s t"

lemma cg_loop_visited:
  assumes "visited P s t" "cg_loop P s = Inr r"
  shows "cg_loop P t = Inr r"
  using assms by (induction rule: visited.induct) (simp_all add: cg_loop.simps)

lemma accepted_step:
  assumes "visited P s t" "cg_loop P s = Inr r" "pos t < cg_end_offset P"
  obtains t' stop where "cg_step P t = Inr (t', stop)"
proof -
  from cg_loop_visited [OF assms(1,2)] have "cg_loop P t = Inr r" .
  with assms(3) show thesis
    by (subst (asm) cg_loop.simps) (auto simp: res_simps intro: that)
qed

subsection \<open>The state invariant\<close>

definition cg_inv :: "cg_state \<Rightarrow> bool" where
  "cg_inv s \<longleftrightarrow> open_blocks s \<noteq> [] \<and> block_depth s = int (length (open_blocks s)) - 1 \<and>
     (\<forall>b \<in> set (open_blocks s). sanity_check b = 0x1234ABCD \<and> 0 < iteration_bound b \<and>
        iteration_bound b < 2 ^ 32)"

lemma cg_inv_pos [simp]: "cg_inv (s\<lparr>pos := i\<rparr>) = cg_inv s"
  and cg_inv_gc [simp]: "cg_inv (s\<lparr>pos := i, guard_count := g\<rparr>) = cg_inv s"
  by (simp_all add: cg_inv_def)

lemma cg_inv_init [simp]: "cg_inv (cg_init start)"
  by (simp add: cg_inv_def cg_init_def new_blk_def)

lemma cg_inv_count: "cg_inv s \<Longrightarrow> cg_inv (count_current s)"
  by (cases "open_blocks s") (auto simp: cg_inv_def count_current_def count_instruction_def)

lemma loop_guard_bound:
  "cg_loop_guard P i gc = Inr (b, i', gc') \<Longrightarrow> 0 < b \<and> b < 2 ^ 32"
  using u32_range
  by (auto simp: cg_loop_guard_def res_simps Let_def order.strict_iff_order split: if_splits)

lemma cg_inv_block: "cg_block P instr s = Inr s' \<Longrightarrow> cg_inv s \<Longrightarrow> cg_inv s'"
  unfolding cg_block_def
  by (cases "open_blocks s")
     (auto simp: cg_inv_def Let_def res_simps new_blk_def dest!: loop_guard_bound split: if_splits)

lemma cg_inv_end: "cg_end P s = Inr (s', stop) \<Longrightarrow> cg_inv s \<Longrightarrow> \<not> stop \<Longrightarrow> cg_inv s'"
  by (auto simp: cg_end_def cg_inv_def Let_def attach_child_def split: if_splits list.splits)

lemma cg_inv_call: "cg_call P s = Inr s' \<Longrightarrow> cg_inv s \<Longrightarrow> cg_inv s'"
  by (auto simp: cg_call_def res_simps split: if_splits)

lemma cg_inv_instr: "cg_instr P instr s = Inr (s', stop) \<Longrightarrow> cg_inv s \<Longrightarrow> \<not> stop \<Longrightarrow> cg_inv s'"
  by (auto simp: cg_instr_def Let_def res_simps advance_with_ok
      dest: cg_inv_block cg_inv_call cg_inv_end split: if_splits)

lemma cg_inv_step: "cg_step P s = Inr (s', False) \<Longrightarrow> cg_inv s \<Longrightarrow> cg_inv s'"
  by (auto simp: cg_step_def res_simps dest!: cg_inv_instr intro: cg_inv_count)

lemma cg_inv_visited: "visited P s t \<Longrightarrow> cg_inv s \<Longrightarrow> cg_inv t"
  by (induction rule: visited.induct) (auto dest: cg_inv_step)

subsection \<open>Forbidden instructions\<close>

text \<open>The bytes of a guard call \<^verbatim>\<open>_g(id, bound)\<close> at offset \<open>i\<close>, bound not zero.\<close>

definition guard_call_at :: "blob \<Rightarrow> int \<Rightarrow> int \<Rightarrow> bool" where
  "guard_call_at wasm gfi i \<longleftrightarrow>
     (\<exists>j k l ident bound.
        wasm_at wasm i = Inr 0x41 \<and> parseSignedLeb128 wasm (i + 1) = Inr (ident, j) \<and>
        wasm_at wasm j = Inr 0x41 \<and> parseLeb128 wasm (j + 1) = Inr (bound, k) \<and> u32 bound \<noteq> 0 \<and>
        wasm_at wasm k = Inr 0x10 \<and> parseLeb128 wasm (k + 1) = Inr (u64 gfi, l))"

lemma loop_guard_call:
  "cg_loop_guard P i gc = Inr (b, i', gc') \<Longrightarrow> guard_call_at (cg_wasm P) (guard_func_idx P) i"
  unfolding guard_call_at_def
  by (fastforce simp: cg_loop_guard_def cg_expect_def res_simps Let_def split: if_splits)

lemma step_instr:
  assumes "cg_step P s = Inr (s', stop)"
  obtains instr where "wasm_at (cg_wasm P) (pos s) = Inr instr"
    "cg_instr P instr (count_current s) = Inr (s', stop)"
  using assms by (auto simp: cg_step_def res_simps)

lemma instr_loop:
  "cg_instr P 0x03 s = Inr (s', stop) \<Longrightarrow>
     \<exists>j. cg_block_type (cg_wasm P) (pos s) = Inr j \<and> guard_call_at (cg_wasm P) (guard_func_idx P) j"
  by (auto simp: cg_instr_def cg_block_def res_simps Let_def dest!: loop_guard_call)



lemma count_current_pos [simp]: "pos (count_current s) = pos s + 1"
  by (simp add: count_current_def)

lemma accepted_instr:
  assumes "check_guard wasm start fin gfi lii rv = Inr w"
    and "visited (check_guard_params wasm fin gfi lii rv) (cg_init start) s"
    and "pos s < cg_end_offset (check_guard_params wasm fin gfi lii rv)"
  obtains instr s' stop where "wasm_at wasm (pos s) = Inr instr"
    "cg_instr (check_guard_params wasm fin gfi lii rv) instr (count_current s) = Inr (s', stop)"
proof -
  let ?P = "check_guard_params wasm fin gfi lii rv"
  from assms(1) obtain r where "cg_loop ?P (cg_init start) = Inr r"
    by (auto simp: check_guard_def res_simps)
  from accepted_step [OF assms(2) this assms(3)] obtain s' stop where "cg_step ?P s = Inr (s', stop)" .
  then show thesis
    by (rule step_instr) (use that in \<open>auto simp: check_guard_params_def\<close>)
qed

text \<open>
  C2. No unguarded loop passes: in an accepted function body every \<^verbatim>\<open>loop\<close> instruction is followed,
  right after its block type, by two \<^verbatim>\<open>i32.const\<close> instructions and a call of the guard function
  \<^verbatim>\<open>_g\<close> with a non-zero iteration bound.
\<close>

theorem check_guard_loops_guarded:
  assumes "check_guard wasm start fin gfi lii rv = Inr w"
    and "visited (check_guard_params wasm fin gfi lii rv) (cg_init start) s"
    and "pos s < cg_end_offset (check_guard_params wasm fin gfi lii rv)"
    and "wasm_at wasm (pos s) = Inr 0x03"
  shows "\<exists>j. cg_block_type wasm (pos s + 1) = Inr j \<and> guard_call_at wasm gfi j"
proof -
  let ?P = "check_guard_params wasm fin gfi lii rv"
  from accepted_instr [OF assms(1-3)] obtain instr s' stop
    where "wasm_at wasm (pos s) = Inr instr" "cg_instr ?P instr (count_current s) = Inr (s', stop)" .
  then have "cg_instr ?P 0x03 (count_current s) = Inr (s', stop)" using assms(4) by simp
  from instr_loop [OF this] show ?thesis by (simp add: check_guard_params_def)
qed

text \<open>A function body: a guarded loop of three instructions and the call that guards it.\<close>

definition guarded_body :: blob where
  "guarded_body = [0x03, 0x40, 0x41, 0x01, 0x41, 0x05, 0x10, 0x00, 0x01, 0x0B, 0x0B]"

lemma guarded_body_accepted: "check_guard guarded_body 0 11 0 0 0 = Inr 12"
  by code_simp

theorem check_guard_loops_guarded_witness:
  "check_guard guarded_body 0 11 0 0 0 = Inr 12 \<and> wasm_at guarded_body 0 = Inr 0x03 \<and>
   (\<exists>j. cg_block_type guarded_body 1 = Inr j \<and> guard_call_at guarded_body 0 j)"
  using check_guard_loops_guarded [OF guarded_body_accepted visited.here]
    guarded_body_accepted
  by (simp add: check_guard_params_def cg_init_def guarded_body_def wasm_at_def)



text \<open>
  C20. An accepted body has a worst-case instruction count below 65535 and blocks nested at most
  sixteen deep, and the count is that of the block tree the pass built.
\<close>

theorem check_guard_bounded:
  assumes "check_guard wasm start fin gfi lii rv = Inr w"
  shows "\<exists>s. cg_loop (check_guard_params wasm fin gfi lii rv) (cg_init start) = Inr s \<and>
    compute_wce None (close_blocks (open_blocks s)) 0 False = Inr (w, False) \<and>
    blk_height (close_blocks (open_blocks s)) \<le> 17 \<and> w < 0xFFFF"
proof -
  from assms obtain s where s: "cg_loop (check_guard_params wasm fin gfi lii rv) (cg_init start) = Inr s"
    and c: "compute_wce None (close_blocks (open_blocks s)) 0 False = Inr (w, False)" and w: "w < 0xFFFF"
    by (auto simp: check_guard_def res_simps split: if_splits)
  from compute_wce_limit_aux(1) [OF c] have "blk_height (close_blocks (open_blocks s)) \<le> 17" by auto
  with s c w show ?thesis by blast
qed

theorem check_guard_bounded_witness:
  "\<exists>s. cg_loop (check_guard_params guarded_body 11 0 0 0) (cg_init 0) = Inr s \<and>
    compute_wce None (close_blocks (open_blocks s)) 0 False = Inr (12, False) \<and>
    blk_height (close_blocks (open_blocks s)) \<le> 17 \<and> (12 :: int) < 0xFFFF"
  by (rule check_guard_bounded [OF guarded_body_accepted])

end
