(* ===== verification/Guard_Validate.thy ===== *)
theory Guard_Validate
  imports Guard_Sound "HOL-Library.AList"
begin

text \<open>
  \<open>validateGuards\<close> of \<^verbatim>\<open>src/src/ripple/app/hook/Guard.h\<close>. The first pass walks the sections of the
  module, whose types must increase, and collects the imports, the exported \<^verbatim>\<open>hook\<close> and \<^verbatim>\<open>cbak\<close>
  functions and the function types in \<open>vg_scan\<close>, whose \<open>std::map\<close>s are association lists. The second pass checks the type section against the
  signatures of the imported functions and runs \<open>check_guard\<close> on every function of the code section.
  Modules are shorter than $2^{31}$ bytes, as \<open>maxHookWasmSize\<close> requires. The second loop has no
  bound of its own, so it is a partial function: \<open>None\<close> would be a loop that never ends.
\<close>

subsection \<open>Readers\<close>

definition check_short :: "blob \<Rightarrow> int \<Rightarrow> fault + unit" where
  "check_short wasm i = require (0 \<le> i \<and> i < int (length wasm)) (Reject SHORT_HOOK)"

text \<open>\<open>int x = parseLeb128(wasm, i, &i); CHECK_SHORT_HOOK();\<close>\<close>

definition leb_int :: "blob \<Rightarrow> int \<Rightarrow> fault + (int \<times> int)" where
  "leb_int wasm i = rbind (parseLeb128 wasm i) (\<lambda>(v, i').
     rbind (check_short wasm i') (\<lambda>_. Inr (s32 v, i')))"

text \<open>Signed 32-bit addition: overflow is undefined.\<close>

definition int_add :: "int \<Rightarrow> int \<Rightarrow> fault + int" where
  "int_add a b = (if is_s32 (a + b) then Inr (a + b) else Inl Undefined)"

definition str_at :: "blob \<Rightarrow> int \<Rightarrow> int \<Rightarrow> string" where
  "str_at wasm i n = map (\<lambda>b. char_of (nat (uint b))) (take (nat n) (drop (nat i) wasm))"

fun match_at :: "blob \<Rightarrow> int list \<Rightarrow> int \<Rightarrow> fault + bool" where
  "match_at wasm [] i = Inr True"
| "match_at wasm (c # cs) i =
     rbind (wasm_at wasm i) (\<lambda>b. if b = c then match_at wasm cs (i + 1) else Inr False)"

lemma uint_byte_above: "\<not> uint (b :: byte) \<le> x \<Longrightarrow> x < 255"
  using uint_byte_le [of b] by linarith

subsection \<open>First pass\<close>

record vg_scan =
  hook_func_idx :: "int option"
  cbak_func_idx :: "int option"
  func_type_map :: "(int \<times> int) list"
  import_type_map :: "(int \<times> (int \<times> string) list) list"
  guard_import_number :: int
  last_import_number :: int
  import_count :: int

definition vg_init :: vg_scan where
  "vg_init = \<lparr>hook_func_idx = None, cbak_func_idx = None, func_type_map = [],
     import_type_map = [], guard_import_number = -1, last_import_number = -1, import_count = 0\<rparr>"

text \<open>Module name, import name, kind and type index of one import: its name, its type, the cursor.\<close>

definition vg_import_entry :: "blob \<Rightarrow> int \<Rightarrow> fault + (string \<times> int \<times> int)" where
  "vg_import_entry wasm i =
     rbind (leb_int wasm i) (\<lambda>(mod_length, i).
     if mod_length < 1 \<or> mod_length > int (length wasm) - i then Inl (Reject IMPORT_MODULE_BAD)
     else if str_at wasm i mod_length \<noteq> ''env'' then Inl (Reject IMPORT_MODULE_ENV)
     else rbind (check_short wasm (i + mod_length)) (\<lambda>_.
     rbind (leb_int wasm (i + mod_length)) (\<lambda>(name_length, i).
     if name_length < 1 \<or> name_length > int (length wasm) - i then Inl (Reject IMPORT_NAME_BAD)
     else let import_name = str_at wasm i name_length; i = i + name_length in
     rbind (check_short wasm i) (\<lambda>_.
     rbind (wasm_at wasm i) (\<lambda>kind.
     if kind > 0 then Inl (Reject IMPORT_ILLEGAL)
     else rbind (check_short wasm (i + 1)) (\<lambda>_.
     rbind (leb_int wasm (i + 1)) (\<lambda>(type_idx, i).
     Inr (import_name, type_idx, i))))))))"

definition import_allowed :: "int \<Rightarrow> string \<Rightarrow> bool" where
  "import_allowed rulesVersion name \<longleftrightarrow>
     import_whitelist name \<noteq> None \<or> rulesVersion > 0 \<and> import_whitelist_1 name \<noteq> None"

definition vg_add_import :: "int \<Rightarrow> int \<Rightarrow> string \<Rightarrow> int \<Rightarrow> vg_scan \<Rightarrow> fault + vg_scan" where
  "vg_add_import rulesVersion func_upto name type_idx sc =
     rbind (if name = ''_g'' then Inr (sc\<lparr>guard_import_number := func_upto\<rparr>)
            else if import_allowed rulesVersion name then Inr sc
            else Inl (Reject IMPORT_ILLEGAL)) (\<lambda>sc.
     Inr (sc\<lparr>import_type_map := AList.update type_idx
       (case map_of (import_type_map sc) type_idx of
          None \<Rightarrow> [(func_upto, name)]
        | Some us \<Rightarrow> us @ [(func_upto, name)]) (import_type_map sc)\<rparr>))"

fun vg_imports :: "blob \<Rightarrow> int \<Rightarrow> nat \<Rightarrow> int \<Rightarrow> int \<Rightarrow> vg_scan \<Rightarrow> fault + (int \<times> vg_scan)" where
  "vg_imports wasm rulesVersion 0 func_upto i sc = Inr (func_upto, sc)"
| "vg_imports wasm rulesVersion (Suc n) func_upto i sc =
     rbind (vg_import_entry wasm i) (\<lambda>(name, type_idx, i).
     rbind (vg_add_import rulesVersion func_upto name type_idx sc) (\<lambda>sc.
     vg_imports wasm rulesVersion n (func_upto + 1) i sc))"

definition vg_import_section :: "blob \<Rightarrow> int \<Rightarrow> int \<Rightarrow> vg_scan \<Rightarrow> fault + vg_scan" where
  "vg_import_section wasm rulesVersion i sc =
     rbind (leb_int wasm i) (\<lambda>(import_count, i).
     if import_count \<le> 0 then Inl (Reject IMPORTS_MISSING)
     else rbind (vg_imports wasm rulesVersion (nat import_count) 0 i sc) (\<lambda>(func_upto, sc).
     if guard_import_number sc = -1 then Inl (Reject GUARD_IMPORT)
     else Inr (sc\<lparr>last_import_number := func_upto - 1, import_count := import_count\<rparr>)))"

text \<open>The function index of an export whose four-byte name matched at \<open>i\<close>.\<close>

definition vg_export_idx :: "blob \<Rightarrow> int \<Rightarrow> int \<Rightarrow> fault + (int \<times> int)" where
  "vg_export_idx wasm err i =
     rbind (check_short wasm (i + 4)) (\<lambda>_.
     rbind (wasm_at wasm (i + 4)) (\<lambda>kind.
     if kind \<noteq> 0 then Inl (Reject err)
     else rbind (check_short wasm (i + 5)) (\<lambda>_. leb_int wasm (i + 5))))"

definition vg_export_other :: "blob \<Rightarrow> int \<Rightarrow> int \<Rightarrow> fault + int" where
  "vg_export_other wasm name_len i =
     rbind (int_add name_len 1) (\<lambda>n. rbind (int_add i n) (\<lambda>i.
     rbind (leb_int wasm i) (\<lambda>(_, i). Inr i)))"

definition vg_export :: "blob \<Rightarrow> int \<Rightarrow> vg_scan \<Rightarrow> fault + (int \<times> vg_scan)" where
  "vg_export wasm i sc =
     rbind (leb_int wasm i) (\<lambda>(name_len, i).
     rbind (if name_len = 4 then match_at wasm [104, 111, 111, 107] i else Inr False) (\<lambda>is_hook.
     if is_hook then
       rbind (vg_export_idx wasm EXPORT_HOOK_FUNC i) (\<lambda>(f, i). Inr (i, sc\<lparr>hook_func_idx := Some f\<rparr>))
     else rbind (if name_len = 4 then match_at wasm [99, 98, 97, 107] i else Inr False) (\<lambda>is_cbak.
     if is_cbak then
       rbind (vg_export_idx wasm EXPORT_CBAK_FUNC i) (\<lambda>(f, i). Inr (i, sc\<lparr>cbak_func_idx := Some f\<rparr>))
     else rbind (vg_export_other wasm name_len i) (\<lambda>i. Inr (i, sc)))))"

fun vg_exports :: "blob \<Rightarrow> nat \<Rightarrow> int \<Rightarrow> vg_scan \<Rightarrow> fault + vg_scan" where
  "vg_exports wasm 0 i sc = Inr sc"
| "vg_exports wasm (Suc n) i sc = rbind (vg_export wasm i sc) (\<lambda>(i, sc). vg_exports wasm n i sc)"

definition vg_export_section :: "blob \<Rightarrow> int \<Rightarrow> vg_scan \<Rightarrow> fault + vg_scan" where
  "vg_export_section wasm i sc =
     rbind (leb_int wasm i) (\<lambda>(export_count, i).
     if export_count \<le> 0 then Inl (Reject EXPORTS_MISSING)
     else rbind (vg_exports wasm (nat export_count) i sc) (\<lambda>sc.
     if hook_func_idx sc = None then Inl (Reject EXPORT_MISSING) else Inr sc))"

fun vg_functions :: "blob \<Rightarrow> nat \<Rightarrow> int \<Rightarrow> int \<Rightarrow> vg_scan \<Rightarrow> fault + vg_scan" where
  "vg_functions wasm 0 j i sc = Inr sc"
| "vg_functions wasm (Suc n) j i sc =
     rbind (leb_int wasm i) (\<lambda>(type_idx, i).
     vg_functions wasm n (j + 1) i (sc\<lparr>func_type_map := AList.update j type_idx (func_type_map sc)\<rparr>))"

definition vg_function_section :: "blob \<Rightarrow> int \<Rightarrow> vg_scan \<Rightarrow> fault + vg_scan" where
  "vg_function_section wasm i sc =
     rbind (leb_int wasm i) (\<lambda>(function_count, i).
     if function_count \<le> 0 then Inl (Reject FUNCS_MISSING)
     else vg_functions wasm (nat function_count) 0 i sc)"

definition vg_section :: "blob \<Rightarrow> int \<Rightarrow> int \<Rightarrow> int \<Rightarrow> vg_scan \<Rightarrow> fault + vg_scan" where
  "vg_section wasm rulesVersion section_type i sc =
     (if section_type = 2 then vg_import_section wasm rulesVersion i sc
      else if section_type = 7 then vg_export_section wasm i sc
      else if section_type = 3 then vg_function_section wasm i sc
      else Inr sc)"

function vg_first :: "blob \<Rightarrow> int \<Rightarrow> int \<Rightarrow> int \<Rightarrow> int \<Rightarrow> vg_scan \<Rightarrow> fault + vg_scan" where
  "vg_first wasm rulesVersion i j last_section_type sc =
     (if 0 \<le> i \<and> i < int (length wasm) then
        if j = i then Inl (Reject WASM_PARSE_LOOP)
        else let section_type = uint (wasm ! nat i) in
          if section_type = 0 then Inl (Reject CUSTOM_SECTION_DISALLOWED)
          else if section_type \<le> last_section_type then Inl (Reject SECTIONS_OUT_OF_SEQUENCE)
          else rbind (leb_int wasm (i + 1)) (\<lambda>(section_length, k).
            rbind (int_add k section_length) (\<lambda>next_section.
            rbind (vg_section wasm rulesVersion section_type k sc) (\<lambda>sc.
            vg_first wasm rulesVersion next_section i section_type sc)))
      else Inr sc)"
  by pat_completeness auto
termination
  by (relation "measure (\<lambda>(_, _, _, _, last, _). nat (255 - last))")
     (auto dest: uint_byte_above)

declare vg_first.simps [simp del]

subsection \<open>Second pass: the type section\<close>

definition api_signature :: "string \<Rightarrow> fault + int list" where
  "api_signature name =
     (case import_whitelist name of
        Some sig \<Rightarrow> Inr sig
      | None \<Rightarrow> (case import_whitelist_1 name of Some sig \<Rightarrow> Inr sig | None \<Rightarrow> Inl Undefined))"

fun vg_signature :: "(int \<times> string) list \<Rightarrow> int list option \<Rightarrow> fault + int list option" where
  "vg_signature [] first = Inr first"
| "vg_signature ((import_idx, api_name) # usage) first =
     rbind (api_signature api_name) (\<lambda>sig.
     case first of
       None \<Rightarrow> vg_signature usage (Some sig)
     | Some f \<Rightarrow> if sig \<noteq> f then Inl (Reject FUNC_TYPE_INVALID) else vg_signature usage (Some f))"

definition value_type :: "int \<Rightarrow> bool" where
  "value_type t \<longleftrightarrow> t = 0x7F \<or> t = 0x7E \<or> t = 0x7D \<or> t = 0x7C"

text \<open>Dereferencing an empty \<open>first_signature\<close> or indexing past its end is undefined.\<close>

definition sig_at :: "int list option \<Rightarrow> nat \<Rightarrow> fault + int" where
  "sig_at first k = (case first of None \<Rightarrow> Inl Undefined
     | Some f \<Rightarrow> if k < length f then Inr (f ! k) else Inl Undefined)"

fun vg_params :: "blob \<Rightarrow> bool \<Rightarrow> int list option \<Rightarrow> nat \<Rightarrow> nat \<Rightarrow> int \<Rightarrow> fault + int" where
  "vg_params wasm is_hook first 0 k i = Inr i"
| "vg_params wasm is_hook first (Suc n) k i =
     rbind (leb_int wasm i) (\<lambda>(param_type, i).
     if \<not> value_type param_type then Inl (Reject FUNC_PARAM_INVALID)
     else if is_hook then
       (if param_type \<noteq> 0x7F then Inl (Reject PARAM_HOOK_CBAK)
        else vg_params wasm is_hook first n (k + 1) i)
     else rbind (sig_at first (k + 1)) (\<lambda>t.
       if t \<noteq> param_type then Inl (Reject FUNC_PARAM_INVALID)
       else vg_params wasm is_hook first n (k + 1) i))"

definition vg_param_count :: "bool \<Rightarrow> int list option \<Rightarrow> int \<Rightarrow> fault + unit" where
  "vg_param_count is_hook first param_count =
     (if is_hook then require (param_count = 1) (Reject PARAM_HOOK_CBAK)
      else case first of
        None \<Rightarrow> Inl Undefined
      | Some f \<Rightarrow> require (u64 param_count = u64 (int (length f) - 1)) (Reject FUNC_TYPE_INVALID))"

text \<open>\<open>result_count\<close> is one, so its loop runs once.\<close>

definition vg_result :: "blob \<Rightarrow> bool \<Rightarrow> int list option \<Rightarrow> int \<Rightarrow> fault + int" where
  "vg_result wasm is_hook first i =
     rbind (leb_int wasm i) (\<lambda>(result_count, i).
     if result_count \<noteq> 1 then Inl (Reject FUNC_RETURN_COUNT)
     else rbind (leb_int wasm i) (\<lambda>(result_type, i).
     if \<not> value_type result_type then Inl (Reject FUNC_RETURN_INVALID)
     else if is_hook then
       (if result_type \<noteq> 0x7E then Inl (Reject RETURN_HOOK_CBAK) else Inr i)
     else rbind (sig_at first 0) (\<lambda>t.
       if t \<noteq> result_type then Inl (Reject FUNC_RETURN_INVALID) else Inr i)))"

definition vg_type :: "blob \<Rightarrow> vg_scan \<Rightarrow> int \<Rightarrow> int \<Rightarrow> int \<Rightarrow> fault + int" where
  "vg_type wasm sc hook_type_idx j i =
     rbind (wasm_at wasm i) (\<lambda>form.
     if form \<noteq> 0x60 then Inl (Reject FUNC_TYPE_INVALID)
     else rbind (check_short wasm (i + 1)) (\<lambda>_.
     rbind (case map_of (import_type_map sc) j of
              Some usage \<Rightarrow> vg_signature usage None
            | None \<Rightarrow> if j = hook_type_idx then Inr None else Inl (Reject FUNC_TYPE_INVALID)) (\<lambda>first.
     rbind (leb_int wasm (i + 1)) (\<lambda>(param_count, i).
     rbind (vg_param_count (j = hook_type_idx) first param_count) (\<lambda>_.
     rbind (vg_params wasm (j = hook_type_idx) first (nat param_count) 0 i) (\<lambda>i.
     vg_result wasm (j = hook_type_idx) first i))))))"

fun vg_types :: "blob \<Rightarrow> vg_scan \<Rightarrow> int \<Rightarrow> nat \<Rightarrow> int \<Rightarrow> int \<Rightarrow> fault + unit" where
  "vg_types wasm sc hook_type_idx 0 j i = Inr ()"
| "vg_types wasm sc hook_type_idx (Suc n) j i =
     rbind (vg_type wasm sc hook_type_idx j i) (\<lambda>i. vg_types wasm sc hook_type_idx n (j + 1) i)"

subsection \<open>Second pass: the code section\<close>

fun vg_locals :: "blob \<Rightarrow> nat \<Rightarrow> int \<Rightarrow> fault + int" where
  "vg_locals wasm 0 i = Inr i"
| "vg_locals wasm (Suc n) i =
     rbind (leb_int wasm i) (\<lambda>(_, i).
     rbind (wasm_at wasm i) (\<lambda>t.
     if \<not> (t \<ge> 0x7C \<and> t \<le> 0x7F) then Inl (Reject TYPE_INVALID)
     else rbind (check_short wasm (i + 1)) (\<lambda>_. vg_locals wasm n (i + 1))))"

text \<open>The offsets where the expression of the function at \<open>i\<close> begins and where its code ends.\<close>

definition vg_body :: "blob \<Rightarrow> int \<Rightarrow> fault + (int \<times> int)" where
  "vg_body wasm i =
     rbind (leb_int wasm i) (\<lambda>(code_size, i).
     rbind (int_add i code_size) (\<lambda>code_end.
     rbind (leb_int wasm i) (\<lambda>(local_count, i).
     rbind (vg_locals wasm (nat local_count) i) (\<lambda>i. Inr (i, code_end)))))"

text \<open>The counts are \<open>maxInstrCountHook\<close> and \<open>maxInstrCountCbak\<close>.\<close>

fun vg_bodies :: "blob \<Rightarrow> int \<Rightarrow> vg_scan \<Rightarrow> nat \<Rightarrow> int \<Rightarrow> int \<Rightarrow> int \<times> int \<Rightarrow> fault + (int \<times> int)" where
  "vg_bodies wasm rulesVersion sc 0 j i (mh, mc) = Inr (mh, mc)"
| "vg_bodies wasm rulesVersion sc (Suc n) j i (mh, mc) =
     rbind (vg_body wasm i) (\<lambda>(i, code_end).
     if i = code_end then vg_bodies wasm rulesVersion sc n (j + 1) i (mh, mc)
     else rbind (check_guard wasm i code_end (guard_import_number sc) (last_import_number sc) rulesVersion)
       (\<lambda>valid. vg_bodies wasm rulesVersion sc n (j + 1) code_end
         (if hook_func_idx sc = Some j then (valid, mc)
          else if cbak_func_idx sc = Some j then (mh, valid)
          else (mh, mc))))"

subsection \<open>The second pass and the whole check\<close>

text \<open>One section: the offset of the next one and the counts.\<close>

definition vg_section2 ::
  "blob \<Rightarrow> int \<Rightarrow> vg_scan \<Rightarrow> int \<Rightarrow> int \<Rightarrow> int \<times> int \<Rightarrow> fault + (int \<times> int \<times> int)" where
  "vg_section2 wasm rulesVersion sc hook_type_idx i counts =
     rbind (wasm_at wasm i) (\<lambda>section_type.
     rbind (leb_int wasm (i + 1)) (\<lambda>(section_length, i).
     rbind (int_add i section_length) (\<lambda>next_section.
     if section_type = 1 then
       rbind (leb_int wasm i) (\<lambda>(type_count, i).
       rbind (vg_types wasm sc hook_type_idx (nat type_count) 0 i) (\<lambda>_. Inr (next_section, counts)))
     else if section_type = 10 then
       rbind (leb_int wasm i) (\<lambda>(func_count, i).
       rbind (vg_bodies wasm rulesVersion sc (nat func_count) 0 i counts) (\<lambda>counts.
       Inr (next_section, counts)))
     else Inr (next_section, counts))))"

partial_function (option) vg_second ::
  "blob \<Rightarrow> int \<Rightarrow> vg_scan \<Rightarrow> int \<Rightarrow> int \<Rightarrow> int \<times> int \<Rightarrow> (fault + int \<times> int) option" where
  "vg_second wasm rulesVersion sc hook_type_idx i counts =
     (if 0 \<le> i \<and> i < int (length wasm) then
        (case vg_section2 wasm rulesVersion sc hook_type_idx i counts of
           Inl e \<Rightarrow> Some (Inl e)
         | Inr (i', counts') \<Rightarrow> vg_second wasm rulesVersion sc hook_type_idx i' counts')
      else Some (Inr counts))"

declare vg_second.simps [code]

definition wasm_header :: blob where
  "wasm_header = [0x00, 0x61, 0x73, 0x6D, 0x01, 0x00, 0x00, 0x00]"

text \<open>
  Between the passes: the function indices become indices into the function section and the types
  of \<^verbatim>\<open>hook\<close> and \<^verbatim>\<open>cbak\<close> are compared. Using an empty \<open>hook_func_idx\<close> is undefined.
\<close>

definition vg_entry_types :: "vg_scan \<Rightarrow> int \<Rightarrow> int option \<Rightarrow> fault + int" where
  "vg_entry_types sc h c =
     (case map_of (func_type_map sc) h of
        None \<Rightarrow> Inl (Reject FUNC_TYPELESS)
      | Some hook_type_idx \<Rightarrow>
          (case c of
             None \<Rightarrow> Inr hook_type_idx
           | Some c \<Rightarrow>
               (case map_of (func_type_map sc) c of
                  None \<Rightarrow> Inl (Reject FUNC_TYPELESS)
                | Some t \<Rightarrow> if t \<noteq> hook_type_idx then Inl (Reject HOOK_CBAK_DIFF_TYPES)
                             else Inr hook_type_idx)))"

definition vg_entry_points :: "vg_scan \<Rightarrow> fault + (vg_scan \<times> int)" where
  "vg_entry_points sc =
     rbind (case hook_func_idx sc of None \<Rightarrow> Inl Undefined | Some h \<Rightarrow> int_add h (- import_count sc)) (\<lambda>h.
     rbind (case cbak_func_idx sc of None \<Rightarrow> Inr None
            | Some c \<Rightarrow> rbind (int_add c (- import_count sc)) (\<lambda>c. Inr (Some c))) (\<lambda>c.
     rbind (vg_entry_types sc h c) (\<lambda>hook_type_idx.
     Inr (sc\<lparr>hook_func_idx := Some h, cbak_func_idx := c\<rparr>, hook_type_idx))))"

definition validateGuards :: "blob \<Rightarrow> int \<Rightarrow> (fault + int \<times> int) option" where
  "validateGuards wasm rulesVersion =
     (case rbind (require (length wasm \<ge> 63) (Reject WASM_TOO_SMALL)) (\<lambda>_.
           rbind (require (take 8 wasm = wasm_header) (Reject WASM_BAD_MAGIC)) (\<lambda>_.
           rbind (vg_first wasm rulesVersion 8 0 0 vg_init) vg_entry_points)) of
        Inl e \<Rightarrow> Some (Inl e)
      | Inr (sc, hook_type_idx) \<Rightarrow> vg_second wasm rulesVersion sc hook_type_idx 8 (0, 0))"


subsection \<open>The check ends\<close>

lemma section2_next:
  "vg_section2 wasm rv sc t i m = Inr (i', m') \<Longrightarrow>
     \<exists>len k. leb_int wasm (i + 1) = Inr (len, k) \<and> int_add k len = Inr i'"
  by (auto simp: vg_section2_def res_simps split: if_splits)

lemma vg_first_elim:
  assumes "vg_first wasm rv i j ls sc = Inr sc1" "0 \<le> i \<and> i < int (length wasm)"
  obtains len k i' sc' where "j \<noteq> i" "uint (wasm ! nat i) \<noteq> 0" "\<not> uint (wasm ! nat i) \<le> ls"
    "leb_int wasm (i + 1) = Inr (len, k)" "int_add k len = Inr i'"
    "vg_section wasm rv (uint (wasm ! nat i)) k sc = Inr sc'"
    "vg_first wasm rv i' i (uint (wasm ! nat i)) sc' = Inr sc1"
  using assms by (subst (asm) vg_first.simps) (auto simp: res_simps Let_def split: if_splits)

lemma second_ends:
  "vg_first wasm rv i j ls sc0 = Inr sc1 \<Longrightarrow> \<exists>r. vg_second wasm rv' sc t i m = Some r"
proof (induction wasm rv i j ls sc0 arbitrary: m rule: vg_first.induct)
  case (1 wasm rv i j ls sc0)
  show ?case
  proof (cases "0 \<le> i \<and> i < int (length wasm)")
    case False
    then show ?thesis by (auto simp: vg_second.simps [of wasm _ _ _ i])
  next
    case True
    show ?thesis
    proof (cases "vg_section2 wasm rv' sc t i m")
      case (Inl e)
      with True show ?thesis by (simp add: vg_second.simps [of wasm _ _ _ i])
    next
      case (Inr p)
      obtain i' m' where p: "p = (i', m')" by (cases p)
      from vg_first_elim [OF "1.prems" True] obtain len k i'' sc'
        where f: "j \<noteq> i" "uint (wasm ! nat i) \<noteq> 0" "\<not> uint (wasm ! nat i) \<le> ls"
          "leb_int wasm (i + 1) = Inr (len, k)" "int_add k len = Inr i''"
          "vg_section wasm rv (uint (wasm ! nat i)) k sc0 = Inr sc'"
          "vg_first wasm rv i'' i (uint (wasm ! nat i)) sc' = Inr sc1" .
      with section2_next [OF Inr [unfolded p]] have "i'' = i'" by auto
      with "1.IH" [OF True f(1) refl f(2-4) refl f(5-7)] True Inr p show ?thesis
        by (simp add: vg_second.simps [of wasm _ _ _ i])
    qed
  qed
qed

text \<open>
  C24. The check of a module always ends: although the second pass has no test against going round in
  circles, the first pass has already walked the same chain of sections.
\<close>

theorem validateGuards_ends: "\<exists>r. validateGuards wasm rulesVersion = Some r"
proof (cases "vg_first wasm rulesVersion 8 0 0 vg_init")
  case (Inl e)
  then show ?thesis by (cases "length wasm \<ge> 63") (auto simp: validateGuards_def require_def)
next
  case (Inr sc)
  then show ?thesis
    using second_ends [OF Inr]
    by (auto simp: validateGuards_def split: sum.splits)
qed


subsection \<open>What the first pass has established\<close>

text \<open>Every recorded import is an allowed API, and the guard index is that of an import \<^verbatim>\<open>_g\<close>.\<close>

definition import_uses :: "vg_scan \<Rightarrow> int \<Rightarrow> (int \<times> string) list" where
  "import_uses sc t = (case map_of (import_type_map sc) t of None \<Rightarrow> [] | Some us \<Rightarrow> us)"

definition imported :: "vg_scan \<Rightarrow> int \<Rightarrow> string \<Rightarrow> bool" where
  "imported sc ix name \<longleftrightarrow> (\<exists>t. (ix, name) \<in> set (import_uses sc t))"

definition scan_ok :: "int \<Rightarrow> vg_scan \<Rightarrow> bool" where
  "scan_ok rv sc \<longleftrightarrow>
     (\<forall>ix name. imported sc ix name \<longrightarrow> import_allowed rv name) \<and>
     (\<forall>t. map_of (import_type_map sc) t \<noteq> Some []) \<and>
     (guard_import_number sc \<noteq> -1 \<longrightarrow> imported sc (guard_import_number sc) ''_g'')"

lemma allowed_g [simp]: "import_allowed rv ''_g''"
  by (simp add: import_allowed_def import_whitelist_def import_whitelist_table_def)







lemma scan_ok_fields [simp]:
  "scan_ok rv (sc\<lparr>hook_func_idx := h\<rparr>) = scan_ok rv sc"
  "scan_ok rv (sc\<lparr>cbak_func_idx := c\<rparr>) = scan_ok rv sc"
  "scan_ok rv (sc\<lparr>hook_func_idx := h, cbak_func_idx := c\<rparr>) = scan_ok rv sc"
  "scan_ok rv (sc\<lparr>func_type_map := f\<rparr>) = scan_ok rv sc"
  by (simp_all add: scan_ok_def imported_def import_uses_def)






subsection \<open>What acceptance guarantees\<close>



fun read_lebs :: "blob \<Rightarrow> nat \<Rightarrow> int \<Rightarrow> fault + (int list \<times> int)" where
  "read_lebs wasm 0 i = Inr ([], i)"
| "read_lebs wasm (Suc n) i = rbind (leb_int wasm i) (\<lambda>(v, i).
     rbind (read_lebs wasm n i) (\<lambda>(vs, i). Inr (v # vs, i)))"












lemma vg_params_hook_read:
  "vg_params wasm True first n k i = Inr i' \<Longrightarrow> \<exists>ps. read_lebs wasm n i = Inr (ps, i') \<and> set ps \<subseteq> {0x7F}"
  by (induction n arbitrary: k i) (fastforce simp: res_simps split: if_splits)+








subsection \<open>A module that is accepted\<close>







text \<open>
  The signature of an import that shares the type of \<^verbatim>\<open>hook\<close> is not compared with the API: this module
  imports \<^verbatim>\<open>accept\<close>, which takes three arguments, as a function of one argument.
\<close>

definition mistyped_hook :: blob where
  "mistyped_hook = wasm_header @
     [0x01, 0x0C, 0x02, 0x60, 0x02, 0x7F, 0x7F, 0x01, 0x7F, 0x60, 0x01, 0x7F, 0x01, 0x7E,
      0x02, 0x17, 0x02, 0x03, 0x65, 0x6E, 0x76, 0x02, 0x5F, 0x67, 0x00, 0x00,
      0x03, 0x65, 0x6E, 0x76, 0x06, 0x61, 0x63, 0x63, 0x65, 0x70, 0x74, 0x00, 0x01,
      0x03, 0x02, 0x01, 0x01, 0x07, 0x08, 0x01, 0x04, 0x68, 0x6F, 0x6F, 0x6B, 0x00, 0x02,
      0x0A, 0x0E, 0x01, 0x0C, 0x00] @ guarded_body"

lemma mistyped_hook_accepted: "validateGuards mistyped_hook 0 = Some (Inr (12, 0))"
  by code_simp

text \<open>
  Without an import section nothing bounds the function indices that may be called: the last import
  is -1, which the unsigned comparison reads as $2^{64} - 1$. The module below has one function that
  calls itself; it is accepted.
\<close>

definition recursive_hook :: blob where
  "recursive_hook = wasm_header @
     [0x01, 0x06, 0x01, 0x60, 0x01, 0x7F, 0x01, 0x7E, 0x03, 0x02, 0x01, 0x00,
      0x07, 0x08, 0x01, 0x04, 0x68, 0x6F, 0x6F, 0x6B, 0x00, 0x00,
      0x0A, 0x1F, 0x01, 0x1D, 0x00, 0x20, 0x00, 0x10, 0x00] @ replicate 23 0x01 @ [0x0B]"

lemma recursive_hook_accepted: "validateGuards recursive_hook 0 = Some (Inr (26, 0))"
  by code_simp

text \<open>A module without an export section makes the check read an empty \<open>hook_func_idx\<close>.\<close>

lemma missing_exports_undefined:
  "validateGuards (wasm_header @ [0x01, 0x36, 0x00] @ replicate 53 0) 0 = Some (Inl Undefined)"
  by code_simp

end
