(* ===== verification/Decimal_Number.thy ===== *)
theory Decimal_Number
  imports Hook_Enum Complex_Main
begin

unbundle bit_operations_syntax

text \<open>
  The decimal floating point class \<open>Number\<close> of \<^verbatim>\<open>src/src/ripple/basics/Number.h\<close> and
  \<^verbatim>\<open>src/src/ripple/basics/impl/Number.cpp\<close>. A number is a 64-bit mantissa and an exponent; digits
  dropped while a mantissa is scaled go into a \<open>Guard\<close>, sixteen packed decimal digits and a sticky
  bit, from which the result is rounded. The thread-local rounding mode is an argument. A thrown
  \<^verbatim>\<open>std::overflow_error\<close> is \<open>Overflow_error\<close>.
\<close>

datatype rounding_mode = to_nearest | towards_zero | downward | upward

subsection \<open>Guard digits\<close>

record Guard =
  digits :: int
  xbit :: bool
  sbit :: bool

definition new_Guard :: Guard where
  "new_Guard = \<lparr>digits = 0, xbit = False, sbit = False\<rparr>"

definition set_negative :: "Guard \<Rightarrow> Guard" where
  "set_negative g = g\<lparr>sbit := True\<rparr>"

definition guard_push :: "int \<Rightarrow> Guard \<Rightarrow> Guard" where
  "guard_push d g = g\<lparr>xbit := xbit g \<or> digits g AND 0xF \<noteq> 0,
     digits := drop_bit 4 (digits g) OR push_bit 60 (d AND 0xF)\<rparr>"

definition guard_pop :: "Guard \<Rightarrow> int \<times> Guard" where
  "guard_pop g = (drop_bit 60 (digits g AND 0xF000000000000000), g\<lparr>digits := u64 (push_bit 4 (digits g))\<rparr>)"

definition guard_round :: "rounding_mode \<Rightarrow> Guard \<Rightarrow> int" where
  "guard_round mode g =
     (case mode of
        towards_zero \<Rightarrow> - 1
      | downward \<Rightarrow> if sbit g then if digits g > 0 \<or> xbit g then 1 else - 1 else - 1
      | upward \<Rightarrow> if sbit g then - 1 else if digits g > 0 \<or> xbit g then 1 else - 1
      | to_nearest \<Rightarrow>
          if digits g > 0x5000000000000000 then 1
          else if digits g < 0x5000000000000000 then - 1
          else if xbit g then 1 else 0)"

text \<open>\<open>r == 1 || (r == 0 && (m & 1) == 1)\<close>\<close>

definition rounds_away :: "rounding_mode \<Rightarrow> Guard \<Rightarrow> int \<Rightarrow> bool" where
  "rounds_away mode g m \<longleftrightarrow> guard_round mode g = 1 \<or> guard_round mode g = 0 \<and> m AND 1 = 1"

subsection \<open>Numbers\<close>

record Number =
  mantissa :: int
  exponent :: int

definition minMantissa :: int where "minMantissa = 1000000000000000"
definition maxMantissa :: int where "maxMantissa = 9999999999999999"
definition num_minExponent :: int where "num_minExponent = - 32768"
definition num_maxExponent :: int where "num_maxExponent = 32768"

definition num_zero :: Number where
  "num_zero = \<lparr>mantissa = 0, exponent = - 2147483648\<rparr>"

definition isnormal :: "Number \<Rightarrow> bool" where
  "isnormal x \<longleftrightarrow> minMantissa \<le> \<bar>mantissa x\<bar> \<and> \<bar>mantissa x\<bar> \<le> maxMantissa \<and>
     num_minExponent \<le> exponent x \<and> exponent x \<le> num_maxExponent"

definition num_negate :: "Number \<Rightarrow> Number" where
  "num_negate x = x\<lparr>mantissa := - mantissa x\<rparr>"

definition num_less :: "Number \<Rightarrow> Number \<Rightarrow> bool" where
  "num_less x y =
     (let lneg = mantissa x < 0; rneg = mantissa y < 0 in
      if lneg \<noteq> rneg then lneg
      else if mantissa x = 0 then mantissa y > 0
      else if mantissa y = 0 then False
      else if exponent x > exponent y then lneg
      else if exponent x < exponent y then \<not> lneg
      else mantissa x < mantissa y)"

function scale_up :: "int \<Rightarrow> int \<Rightarrow> int \<times> int" where
  "scale_up m e =
     (if m < minMantissa \<and> e > num_minExponent then scale_up (u64 (m * 10)) (e - 1) else (m, e))"
  by pat_completeness auto
termination
  by (relation "measure (\<lambda>(m, e). nat (e - num_minExponent))") auto

function scale_down :: "int \<Rightarrow> int \<Rightarrow> Guard \<Rightarrow> fault + (int \<times> int \<times> Guard)" where
  "scale_down m e g =
     (if m > maxMantissa then
        if e \<ge> num_maxExponent then Inl Overflow_error
        else scale_down (m div 10) (e + 1) (guard_push (m mod 10) g)
      else Inr (m, e, g))"
  by pat_completeness auto
termination
  by (relation "measure (\<lambda>(m, e, g). nat m)") (auto simp: maxMantissa_def)

declare scale_up.simps [simp del] scale_down.simps [simp del]

text \<open>The increment of a rounded mantissa and the carry into the exponent.\<close>

definition round_up :: "bool \<Rightarrow> int \<Rightarrow> int \<Rightarrow> int \<times> int" where
  "round_up away m e =
     (if away then if m + 1 > maxMantissa then ((m + 1) div 10, e + 1) else (m + 1, e) else (m, e))"

text \<open>\<open>Number{mantissa, exponent}\<close>, whose body is \<open>normalize\<close>.\<close>

definition num_normalize :: "rounding_mode \<Rightarrow> int \<Rightarrow> int \<Rightarrow> fault + Number" where
  "num_normalize mode man ex =
     (if man = 0 then Inr num_zero
      else
        let negative = man < 0;
            (m, e) = scale_up (if negative then u64 (- u64 man) else u64 man) ex
        in rbind (scale_down m e (if negative then set_negative new_Guard else new_Guard)) (\<lambda>(m, e, g).
           if e < num_minExponent \<or> m < minMantissa then Inr num_zero
           else
             let (m, e) = round_up (rounds_away mode g m) m e in
             if e > num_maxExponent then Inl Overflow_error
             else Inr \<lparr>mantissa = (if negative then - m else m), exponent = e\<rparr>))"

subsection \<open>Arithmetic\<close>

text \<open>The loops that bring the operand with the smaller exponent to the larger one.\<close>

function align :: "int \<Rightarrow> int \<Rightarrow> int \<Rightarrow> Guard \<Rightarrow> int \<times> int \<times> Guard" where
  "align m e target g =
     (if e < target then align (m div 10) (e + 1) target (guard_push (m mod 10) g) else (m, e, g))"
  by pat_completeness auto
termination
  by (relation "measure (\<lambda>(m, e, target, g). nat (target - e))") auto

declare align.simps [simp del]

definition sgn1 :: "int \<Rightarrow> int" where "sgn1 m = (if m < 0 then - 1 else 1)"

text \<open>Operands of the same sign.\<close>

definition add_same :: "rounding_mode \<Rightarrow> int \<Rightarrow> int \<Rightarrow> int \<Rightarrow> Guard \<Rightarrow> fault + (int \<times> int)" where
  "add_same mode xm ym xe g =
     (let s = xm + ym;
          (xm, xe, g) = (if s > maxMantissa then (s div 10, xe + 1, guard_push (s mod 10) g) else (s, xe, g));
          (xm, xe) = round_up (rounds_away mode g xm) xm xe
      in if xe > num_maxExponent then Inl Overflow_error else Inr (xm, xe))"

text \<open>
  Operands of opposite sign. The loop that takes digits back from the guard has no bound of its
  own; \<open>None\<close> says that the steps given were not enough.
\<close>

fun take_digits :: "nat \<Rightarrow> int \<Rightarrow> int \<Rightarrow> Guard \<Rightarrow> (int \<times> int \<times> Guard) option" where
  "take_digits fuel xm xe g =
     (if xm < minMantissa then
        case fuel of
          0 \<Rightarrow> None
        | Suc n \<Rightarrow> let (d, g) = guard_pop g in take_digits n (xm * 10 - d) (xe - 1) g
      else Some (xm, xe, g))"

declare take_digits.simps [simp del]

definition sub_steps :: nat where "sub_steps = 40"

definition add_opposite :: "rounding_mode \<Rightarrow> int \<Rightarrow> int \<Rightarrow> Guard \<Rightarrow> fault + (int \<times> int)" where
  "add_opposite mode xm xe g =
     (case take_digits sub_steps xm xe g of
        None \<Rightarrow> Inl Undefined
      | Some (xm, xe, g) \<Rightarrow>
          let (xm, xe) =
            (if rounds_away mode g xm then
               if xm - 1 < minMantissa then ((xm - 1) * 10, xe - 1) else (xm - 1, xe)
             else (xm, xe))
          in Inr (if xe < num_minExponent then (0, exponent num_zero) else (xm, xe)))"

definition num_add :: "rounding_mode \<Rightarrow> Number \<Rightarrow> Number \<Rightarrow> fault + Number" where
  "num_add mode x y =
     (if y = num_zero then Inr x
      else if x = num_zero then Inr y
      else if x = num_negate y then Inr num_zero
      else
        let xn = sgn1 (mantissa x); yn = sgn1 (mantissa y);
            xm = \<bar>mantissa x\<bar>; ym = \<bar>mantissa y\<bar>;
            xe = exponent x; ye = exponent y;
            g = (if xe < ye \<and> xn = - 1 \<or> xe > ye \<and> yn = - 1 then set_negative new_Guard else new_Guard);
            (xm, xe', ym, g) =
              (if xe < ye then let (m, e, g) = align xm xe ye g in (m, e, ym, g)
               else let (m, e, g) = align ym ye xe g in (xm, xe, m, g))
        in if xn = yn then
             rbind (add_same mode xm ym xe' g) (\<lambda>(m, e). Inr \<lparr>mantissa = m * xn, exponent = e\<rparr>)
           else if xm > ym then
             rbind (add_opposite mode (xm - ym) xe' g) (\<lambda>(m, e). Inr \<lparr>mantissa = m * xn, exponent = e\<rparr>)
           else
             rbind (add_opposite mode (ym - xm) xe' g) (\<lambda>(m, e). Inr \<lparr>mantissa = m * yn, exponent = e\<rparr>))"

definition num_sub :: "rounding_mode \<Rightarrow> Number \<Rightarrow> Number \<Rightarrow> fault + Number" where
  "num_sub mode x y = num_add mode x (num_negate y)"

text \<open>\<open>divu10\<close> replaces its argument by the quotient and returns the remainder; 128-bit unsigned.\<close>

definition divu10 :: "int \<Rightarrow> int \<times> int" where
  "divu10 u =
     (let q = (drop_bit 1 u + drop_bit 2 u) mod 2 ^ 128;
          q = (q + drop_bit 4 q) mod 2 ^ 128;
          q = (q + drop_bit 8 q) mod 2 ^ 128;
          q = (q + drop_bit 16 q) mod 2 ^ 128;
          q = (q + drop_bit 32 q) mod 2 ^ 128;
          q = (q + drop_bit 64 q) mod 2 ^ 128;
          q = drop_bit 3 q;
          r = u32 ((u - (push_bit 3 q + push_bit 1 q)) mod 2 ^ 128);
          c = drop_bit 4 (u32 (r + 6))
      in ((q + c) mod 2 ^ 128, u32 (r - c * 10)))"

text \<open>
  The shifts sum to four fifths of \<open>u\<close> up to the digits lost in each step, so the quotient is right or
  one too small; the remainder tells which.
\<close>

lemma div_bounds: "0 < c \<Longrightarrow> c * (x div c) \<le> x \<and> x < c * (x div c) + (c :: int)"
  using mult_div_mod_eq [of c x] pos_mod_bound [of c x] pos_mod_sign [of c x] by linarith

lemma divu10_approx:
  fixes u :: int
  assumes u: "0 \<le> u" "u < 2 ^ 128" and q0: "q0 = u div 2 + u div 4"
    and q: "q1 = q0 + q0 div 16" "q2 = q1 + q1 div 256" "q3 = q2 + q2 div 65536"
      "q4 = q3 + q3 div 4294967296" "q5 = q4 + q4 div 18446744073709551616"
  shows "q5 \<le> u \<and> 10 * (q5 div 8) \<le> u \<and> u < 10 * (q5 div 8) + 20"
proof -
  have 0: "4 * q0 \<le> 3 * u" "3 * u - 5 \<le> 4 * q0"
    using div_bounds [of 2 u] div_bounds [of 4 u] q0 by linarith+
  have 1: "64 * q1 \<le> 51 * u" "51 * u - 145 \<le> 64 * q1"
    using div_bounds [of 16 q0] q(1) 0 by linarith+
  have 2: "16384 * q2 \<le> 13107 * u" "13107 * u - 53585 \<le> 16384 * q2"
    using div_bounds [of 256 q1] q(2) 1 by linarith+
  have 3: "1073741824 * q3 \<le> 858993459 * u" "858993459 * u - 4585525585 \<le> 1073741824 * q3"
    using div_bounds [of 65536 q2] q(3) 2 by linarith+
  have 4: "4611686018427387904 * q4 \<le> 3689348814741910323 * u" "3689348814741910323 * u - 24306368444485439825 \<le> 4611686018427387904 * q4"
    using div_bounds [of 4294967296 q3] q(4) 3 by linarith+
  have 5: "85070591730234615865843651857942052864 * q5 \<le> 68056473384187692692674921486353642291 * u" "68056473384187692692674921486353642291 * u - 533443949786947255521031291625299611985 \<le> 85070591730234615865843651857942052864 * q5"
    using div_bounds [of 18446744073709551616 q4] q(5) 4 by linarith+
  have "u < 340282366920938463463374607431768211456" using u(2) by simp
  with 5 u(1) div_bounds [of 8 q5] show ?thesis by linarith
qed

lemma divu10_exact:
  assumes "0 \<le> u" "u < 2 ^ 128"
  shows "divu10 u = (u div 10, u mod 10)"
proof -
  define q0 where "q0 = u div 2 + u div 4"
  define q1 where "q1 = q0 + q0 div 16"
  define q2 where "q2 = q1 + q1 div 256"
  define q3 where "q3 = q2 + q2 div 65536"
  define q4 where "q4 = q3 + q3 div 4294967296"
  define q5 where "q5 = q4 + q4 div 18446744073709551616"
  define q where "q = q5 div 8"
  note defs = q0_def q1_def q2_def q3_def q4_def q5_def
  have ub: "q5 \<le> u" "10 * q \<le> u" "u < 10 * q + 20"
    using divu10_approx [OF assms defs] by (simp_all add: q_def)
  have "0 \<le> q0" using assms by (simp add: q0_def)
  moreover have "q0 \<le> q1" using calculation by (simp add: q1_def pos_imp_zdiv_nonneg_iff)
  moreover have "q1 \<le> q2" using calculation by (simp add: q2_def pos_imp_zdiv_nonneg_iff)
  moreover have "q2 \<le> q3" using calculation by (simp add: q3_def pos_imp_zdiv_nonneg_iff)
  moreover have "q3 \<le> q4" using calculation by (simp add: q4_def pos_imp_zdiv_nonneg_iff)
  moreover have "q4 \<le> q5" using calculation by (simp add: q5_def pos_imp_zdiv_nonneg_iff)
  ultimately have r: "0 \<le> q0" "0 \<le> q1" "0 \<le> q2" "0 \<le> q3" "0 \<le> q4" "0 \<le> q5" "0 \<le> q"
    "q0 < 2 ^ 128" "q1 < 2 ^ 128" "q2 < 2 ^ 128" "q3 < 2 ^ 128" "q4 < 2 ^ 128" "q5 < 2 ^ 128"
    using ub assms by (simp_all add: q_def)
  define rr where "rr = u - 10 * q"
  have rr: "0 \<le> rr" "rr < 20" using ub by (simp_all add: rr_def)
  have "divu10 u = ((q + (rr + 6) div 16) mod 2 ^ 128, u32 (rr - (rr + 6) div 16 * 10))"
  proof -
    have "u - (q * 8 + q * 2) = rr" by (simp add: rr_def)
    then show ?thesis
      using r rr unfolding divu10_def Let_def drop_bit_eq_div push_bit_eq_mult
      by (simp add: q0_def [symmetric] q1_def [symmetric] q2_def [symmetric] q3_def [symmetric]
          q4_def [symmetric] q5_def [symmetric] q_def [symmetric])
  qed
  moreover have "u div 10 = q + (rr + 6) div 16" "u mod 10 = rr - (rr + 6) div 16 * 10"
  proof -
    define c where "c = (rr + 6) div 16"
    have "c = (if rr < 10 then 0 else 1)"
      using rr int_div_pos_eq [of "rr + 6" 16 1 "rr - 10"] by (simp add: c_def div_pos_pos_trivial)
    then have c: "0 \<le> rr - c * 10" "rr - c * 10 < 10" using rr by simp_all
    have "u = 10 * (q + c) + (rr - c * 10)" by (simp add: rr_def)
    from int_div_pos_eq [OF this c] int_mod_pos_eq [OF this c]
    show "u div 10 = q + (rr + 6) div 16" "u mod 10 = rr - (rr + 6) div 16 * 10"
      by (simp_all add: c_def)
  qed
  moreover have "0 \<le> u div 10" "u div 10 < 2 ^ 128" "0 \<le> u mod 10" "u mod 10 < 10"
    using assms by auto
  ultimately show ?thesis by simp
qed

text \<open>The 128-bit loop of the multiplication; its argument is below $2^{128}$ by its type.\<close>

text \<open>
  C36. The shift-and-add division of \<open>divu10\<close> is division by ten: for every 128-bit value it leaves the
  quotient in place and returns the remainder.
\<close>

theorem divu10_correct:
  assumes "0 \<le> u" "u < 2 ^ 128"
  shows "divu10 u = (u div 10, u mod 10)"
  using assms by (rule divu10_exact)

theorem divu10_correct_witness:
  "divu10 (2 ^ 128 - 1) = ((2 ^ 128 - 1) div 10, (2 ^ 128 - 1) mod 10)"
  by (rule divu10_correct) simp_all

function shrink128 :: "int \<Rightarrow> int \<Rightarrow> Guard \<Rightarrow> int \<times> int \<times> Guard" where
  "shrink128 zm ze g =
     (if maxMantissa < zm \<and> zm < 2 ^ 128 then
        let (q, d) = divu10 zm in shrink128 q (ze + 1) (guard_push d g)
      else (zm, ze, g))"
  by pat_completeness auto
termination
  by (relation "measure (\<lambda>(m, e, g). nat m)") (auto simp: maxMantissa_def divu10_exact)

declare shrink128.simps [simp del]

definition num_mul :: "rounding_mode \<Rightarrow> Number \<Rightarrow> Number \<Rightarrow> fault + Number" where
  "num_mul mode x y =
     (if x = num_zero then Inr x
      else if y = num_zero then Inr y
      else
        let zn = sgn1 (mantissa x) * sgn1 (mantissa y);
            (zm, ze, g) = shrink128 (\<bar>mantissa x\<bar> * \<bar>mantissa y\<bar>) (exponent x + exponent y)
              (if zn = - 1 then set_negative new_Guard else new_Guard);
            (xm, xe) = round_up (rounds_away mode g zm) zm ze;
            (xm, xe) = (if xe < num_minExponent then (0, exponent num_zero) else (xm, xe))
        in if xe > num_maxExponent then Inl Overflow_error
           else Inr \<lparr>mantissa = xm * zn, exponent = xe\<rparr>)"

definition num_div :: "rounding_mode \<Rightarrow> Number \<Rightarrow> Number \<Rightarrow> fault + Number" where
  "num_div mode x y =
     (if y = num_zero then Inl Overflow_error
      else if x = num_zero then Inr x
      else
        num_normalize mode
          (s64 (\<bar>mantissa x\<bar> * 100000000000000000 div \<bar>mantissa y\<bar>) *
             (sgn1 (mantissa x) * sgn1 (mantissa y)))
          (exponent x - exponent y - 17))"

text \<open>\<open>Number::operator rep\<close>: conversion to a 64-bit integer.\<close>

function rep_up :: "int \<Rightarrow> int \<Rightarrow> fault + int" where
  "rep_up drops offset =
     (if offset > 0 then
        if drops > (2 ^ 63 - 1) div 10 then Inl Overflow_error else rep_up (drops * 10) (offset - 1)
      else Inr drops)"
  by pat_completeness auto
termination
  by (relation "measure (\<lambda>(d, k). nat k)") auto

declare rep_up.simps [simp del]

definition num_rep :: "rounding_mode \<Rightarrow> Number \<Rightarrow> fault + int" where
  "num_rep mode x =
     (if mantissa x = 0 then Inr 0
      else
        let (drops, offset, g) = align \<bar>mantissa x\<bar> (exponent x) 0
              (if mantissa x < 0 then set_negative new_Guard else new_Guard)
        in rbind (rep_up drops offset) (\<lambda>drops.
           let drops = (if rounds_away mode g drops then drops + 1 else drops)
           in Inr (if sbit g then - drops else drops)))"

subsection \<open>What the guard remembers\<close>

text \<open>
  \<open>held g r k\<close>: the \<open>k\<close> digits of \<open>r\<close> have been pushed on \<open>g\<close>, the lowest first. Rounding then compares
  \<open>r\<close> with half of $10^k$.
\<close>

definition held :: "Guard \<Rightarrow> int \<Rightarrow> nat \<Rightarrow> bool" where
  "held g r k \<longleftrightarrow> 0 \<le> r \<and> r < 10 ^ k \<and> 0 \<le> digits g \<and> digits g < 2 ^ 64 \<and>
     (digits g = 0 \<and> \<not> xbit g \<longleftrightarrow> r = 0) \<and>
     guard_round to_nearest g = sgn (2 * r - 10 ^ k)"

lemma held_new: "held new_Guard 0 0" "held (set_negative new_Guard) 0 0"
  by (simp_all add: held_def new_Guard_def set_negative_def guard_round_def)

lemma guard_push_digits:
  assumes "0 \<le> digits g" "digits g < 2 ^ 64" "0 \<le> d" "d < 10"
  shows "digits (guard_push d g) = digits g div 16 + d * 2 ^ 60"
    and "xbit (guard_push d g) \<longleftrightarrow> xbit g \<or> digits g mod 16 \<noteq> 0"
proof -
  have d: "d AND 0xF = d" using assms(3,4) by (simp add: and_0xF_mod)
  have "digits g div 16 < 2 ^ 60" "0 \<le> digits g div 16" using assms(1,2) by auto
  from or_push_bit_add [OF this(2,1)] show "digits (guard_push d g) = digits g div 16 + d * 2 ^ 60"
    by (simp add: guard_push_def d drop_bit_eq_div)
  show "xbit (guard_push d g) \<longleftrightarrow> xbit g \<or> digits g mod 16 \<noteq> 0"
    by (simp add: guard_push_def and_0xF_mod)
qed

lemma sbit_push [simp]: "sbit (guard_push d g) = sbit g"
  by (simp add: guard_push_def)

lemma held_push:
  assumes "held g r k" "0 \<le> d" "d < 10"
  shows "held (guard_push d g) (d * 10 ^ k + r) (Suc k)"
proof -
  have h: "0 \<le> r" "r < 10 ^ k" "0 \<le> digits g" "digits g < 2 ^ 64" "digits g = 0 \<and> \<not> xbit g \<longleftrightarrow> r = 0"
    using assms(1) by (simp_all add: held_def)
  note p = guard_push_digits [OF h(3,4) assms(2,3)]
  define t where "t = digits g div 16"
  have t: "0 \<le> t" "t < 2 ^ 60" using h(3,4) by (auto simp: t_def)
  have z: "t = 0 \<and> \<not> xbit (guard_push d g) \<longleftrightarrow> r = 0"
    using h(5) p(2) by (auto simp: t_def)
  have tz: "t > 0 \<Longrightarrow> r \<noteq> 0" using z by auto
  define P :: int where "P = 10 ^ k"
  have P: "0 \<le> r" "r < P" "0 < P" using h by (simp_all add: P_def)
  have lt: "d * P + r < 10 * P"
  proof -
    have "d * P \<le> 9 * P" using assms(3) P by (intro mult_right_mono) auto
    then show ?thesis using P by linarith
  qed
  have "sgn (2 * (d * P + r) - 10 * P) =
      (if d > 5 \<or> d = 5 \<and> r \<noteq> 0 then 1 else if d = 5 then 0 else - 1)"
  proof -
    consider "d > 5" | "d = 5" | "d < 5" by linarith
    then show ?thesis
    proof cases
      case 1
      then have "6 * P \<le> d * P" using P by (intro mult_right_mono) auto
      then have "0 < 2 * (d * P) + 2 * r - 10 * P" using P by linarith
      then have "sgn (2 * (d * P + r) - 10 * P) = 1" by (simp only: distrib_left sgn_1_pos)
      then show ?thesis using 1 by simp
    next
      case 3
      then have "d * P \<le> 4 * P" using P by (intro mult_right_mono) auto
      then have "2 * (d * P) + 2 * r - 10 * P < 0" using P by linarith
      then have "sgn (2 * (d * P + r) - 10 * P) = - 1" by (simp only: distrib_left sgn_1_neg)
      then show ?thesis using 3 by simp
    qed (use P in \<open>auto simp: sgn_if\<close>)
  qed
  moreover have "guard_round to_nearest (guard_push d g) =
      (if d > 5 \<or> d = 5 \<and> r \<noteq> 0 then 1 else if d = 5 then 0 else - 1)"
    using t z tz assms(2,3) p(1) [folded t_def] by (auto simp: guard_round_def)
  moreover have "digits (guard_push d g) = 0 \<and> \<not> xbit (guard_push d g) \<longleftrightarrow> d * P + r = 0"
    using z t P assms(2) by (auto simp: p(1) t_def [symmetric] add_nonneg_eq_0_iff)
  ultimately show ?thesis
    using t P assms(2,3) lt by (simp add: held_def p(1) t_def [symmetric] P_def)
qed

text \<open>Scaling loops: the mantissa and what the guard holds together stay the same.\<close>

lemma held_step:
  assumes "held g r k" "0 \<le> m"
  shows "held (guard_push (m mod 10) g) (m mod 10 * 10 ^ k + r) (Suc k)"
    and "m div 10 * 10 ^ Suc k + (m mod 10 * 10 ^ k + r) = m * 10 ^ k + r"
proof -
  show "held (guard_push (m mod 10) g) (m mod 10 * 10 ^ k + r) (Suc k)"
    using assms by (intro held_push) auto
  have "m * 10 ^ k = (m div 10 * 10 + m mod 10) * 10 ^ k" by simp
  also have "\<dots> = m div 10 * 10 ^ Suc k + m mod 10 * 10 ^ k" by (simp only: distrib_right power_Suc mult.assoc)
  finally show "m div 10 * 10 ^ Suc k + (m mod 10 * 10 ^ k + r) = m * 10 ^ k + r" by linarith
qed

lemma shrink128_held:
  assumes "shrink128 m e g = (m', e', g')" "held g r k" "0 \<le> m" "m < 2 ^ 128"
  shows "\<exists>j r'. held g' r' (k + j) \<and> e' = e + int j \<and> m' * 10 ^ (k + j) + r' = m * 10 ^ k + r \<and>
    0 \<le> m' \<and> m' \<le> maxMantissa \<and> (minMantissa \<le> m \<longrightarrow> minMantissa \<le> m') \<and> sbit g' = sbit g"
  using assms
proof (induction m e g arbitrary: r k rule: shrink128.induct)
  case (1 m e g)
  show ?case
  proof (cases "maxMantissa < m")
    case True
    have s: "shrink128 (m div 10) (e + 1) (guard_push (m mod 10) g) = (m', e', g')"
      using "1.prems" True by (simp add: shrink128.simps [of m] divu10_exact)
    have b: "0 \<le> m div 10" "m div 10 < 2 ^ 128" "minMantissa \<le> m div 10"
      using True "1.prems"(4) by (auto simp: maxMantissa_def minMantissa_def)
    have "maxMantissa < m \<and> m < 2 ^ 128" using True "1.prems"(4) by simp
    from "1.IH" [OF this, of "(m div 10, m mod 10)" "m div 10" "m mod 10"
        "m mod 10 * 10 ^ k + r" "Suc k"] s
      held_step(1) [OF "1.prems"(2,3)] b(1,2) "1.prems"(3,4)
    obtain j r' where j: "held g' r' (Suc k + j)" "e' = e + 1 + int j"
      "m' * 10 ^ (Suc k + j) + r' = m div 10 * 10 ^ Suc k + (m mod 10 * 10 ^ k + r)"
      "0 \<le> m'" "m' \<le> maxMantissa" "minMantissa \<le> m'" "sbit g' = sbit g"
      using b(3) by (auto simp: divu10_exact)
    with held_step(2) [OF "1.prems"(2,3)] show ?thesis
      by (intro exI [of _ "Suc j"] exI [of _ r']) (simp add: add.assoc)
  next
    case False
    with "1.prems" show ?thesis
      by (intro exI [of _ 0] exI [of _ r]) (simp add: shrink128.simps [of m])
  qed
qed

lemma scale_down_held:
  assumes "held g r k" "0 \<le> m"
  shows "case scale_down m e g of
      Inl f \<Rightarrow> f = Overflow_error \<and>
        (\<exists>j q r'. num_maxExponent \<le> e + int j \<and> maxMantissa < q \<and> 0 \<le> r' \<and>
          q * 10 ^ (k + j) + r' = m * 10 ^ k + r)
    | Inr (m', e', g') \<Rightarrow>
        (\<exists>j r'. held g' r' (k + j) \<and> e' = e + int j \<and> m' * 10 ^ (k + j) + r' = m * 10 ^ k + r) \<and>
        0 \<le> m' \<and> m' \<le> maxMantissa \<and> (minMantissa \<le> m \<longrightarrow> minMantissa \<le> m') \<and>
        (m \<le> maxMantissa \<longrightarrow> m' = m \<and> e' = e) \<and> sbit g' = sbit g"
  using assms
proof (induction m e g arbitrary: r k rule: scale_down.induct)
  case (1 m e g)
  note unf = scale_down.simps [of m e g]
  consider "m \<le> maxMantissa" | "maxMantissa < m" "num_maxExponent \<le> e" | "maxMantissa < m" "e < num_maxExponent"
    by linarith
  then show ?case
  proof cases
    case 1
    with "1.prems" have "\<exists>j r'. held g r' (k + j) \<and> e = e + int j \<and> m * 10 ^ (k + j) + r' = m * 10 ^ k + r"
      by (intro exI [of _ 0] exI [of _ r]) simp
    with 1 "1.prems" show ?thesis by (simp add: unf)
  next
    case 2
    with "1.prems" have "\<exists>j q r'. num_maxExponent \<le> e + int j \<and> maxMantissa < q \<and> 0 \<le> r' \<and>
        q * 10 ^ (k + j) + r' = m * 10 ^ k + r"
      by (intro exI [of _ 0] exI [of _ m] exI [of _ r]) (simp add: held_def)
    with 2 show ?thesis by (simp add: unf)
  next
    case 3
    have b: "0 \<le> m div 10" "minMantissa \<le> m div 10"
      using 3 by (auto simp: maxMantissa_def minMantissa_def)
    note ih = "1.IH" [OF _ _ held_step(1) [OF "1.prems"] b(1)]
    show ?thesis
    proof (cases "scale_down (m div 10) (e + 1) (guard_push (m mod 10) g)")
      case (Inl f)
      with ih 3 obtain j q r' where "f = Overflow_error" "num_maxExponent \<le> e + int (Suc j)"
        "maxMantissa < q" "0 \<le> r'" "q * 10 ^ (k + Suc j) + r' = m * 10 ^ k + r"
        using held_step(2) [OF "1.prems"] by (force simp: add.assoc)
      then have "f = Overflow_error \<and> (\<exists>j q r'. num_maxExponent \<le> e + int j \<and> maxMantissa < q \<and>
          0 \<le> r' \<and> q * 10 ^ (k + j) + r' = m * 10 ^ k + r)" by blast
      with Inl 3 show ?thesis by (simp add: unf)
    next
      case (Inr t)
      obtain m' e' g' where t: "t = (m', e', g')" by (cases t)
      with Inr ih 3 b(2) obtain j r' where "held g' r' (k + Suc j)" "e' = e + int (Suc j)"
        "m' * 10 ^ (k + Suc j) + r' = m * 10 ^ k + r" "0 \<le> m'" "m' \<le> maxMantissa" "minMantissa \<le> m'"
        "sbit g' = sbit g"
        using held_step(2) [OF "1.prems"] by (force simp: add.assoc)
      then have "(\<exists>j r'. held g' r' (k + j) \<and> e' = e + int j \<and> m' * 10 ^ (k + j) + r' = m * 10 ^ k + r) \<and>
          0 \<le> m' \<and> m' \<le> maxMantissa \<and> minMantissa \<le> m' \<and> sbit g' = sbit g" by blast
      with Inr t 3 show ?thesis by (simp add: unf)
    qed
  qed
qed

lemma scale_up_value:
  assumes "scale_up m e = (m', e')" "0 < m" "m < 2 ^ 64"
  shows "(\<exists>j. e' = e - int j \<and> m' = m * 10 ^ j) \<and> 0 < m' \<and>
    (minMantissa \<le> m' \<or> e' \<le> num_minExponent) \<and> (m' = m \<and> e' = e \<or> m' \<le> maxMantissa)"
  using assms
proof (induction m e rule: scale_up.induct)
  case (1 m e)
  show ?case
  proof (cases "m < minMantissa \<and> num_minExponent < e")
    case True
    have w: "u64 (m * 10) = m * 10" using True "1.prems" by (simp add: minMantissa_def)
    from True "1.prems" have "scale_up (m * 10) (e - 1) = (m', e')"
      by (simp add: scale_up.simps [of m] w)
    with "1.IH" [OF True] True "1.prems" w obtain j where
      "e' = e - int (Suc j)" "m' = m * 10 ^ Suc j" "0 < m'" "minMantissa \<le> m' \<or> e' \<le> num_minExponent"
      "m' = m * 10 \<and> e' = e - 1 \<or> m' \<le> maxMantissa"
      by (auto simp: minMantissa_def)
    with True show ?thesis
      by (intro conjI exI [of _ "Suc j"]) (auto simp: minMantissa_def maxMantissa_def)
  next
    case False
    with "1.prems" show ?thesis
      by (auto simp: scale_up.simps [of m] intro: exI [of _ 0])
  qed
qed

end
