(* ===== verification/Number_Rounding.thy ===== *)
theory Number_Rounding
  imports Decimal_Number
begin

text \<open>
  Accuracy of \<open>Number\<close>. A number stands for the rational \<open>num_value\<close>. Under \<open>to_nearest\<close> the constructor,
  the sum of operands of the same sign and the product are within half a unit in the last place of
  the exact result; they overflow only when it is above every number and give zero only when it is
  below every positive one. The comparison is that of the values.
\<close>

definition num_value :: "Number \<Rightarrow> rat" where
  "num_value x = of_int (mantissa x) * 10 powi exponent x"

text \<open>A mantissa and \<open>k\<close> digits \<open>r\<close> behind its point.\<close>

definition amount :: "int \<Rightarrow> int \<Rightarrow> nat \<Rightarrow> int \<Rightarrow> rat" where
  "amount m r k e = (of_int m + of_int r / 10 ^ k) * 10 powi e"

lemma powi_add_nat: "(10 :: rat) powi (e + int j) = 10 ^ j * 10 powi e"
  by (simp add: power_int_add)

lemma amount_eq:
  assumes "m' * 10 ^ (k + j) + r' = m * 10 ^ k + r"
  shows "amount m' r' (k + j) (e + int j) = amount m r k e"
proof -
  have "(of_int m' * 10 ^ (k + j) + of_int r' :: rat) = of_int m * 10 ^ k + of_int r"
    using arg_cong [OF assms, of "of_int :: int \<Rightarrow> rat"] by simp
  then have "(of_int m' + of_int r' / 10 ^ (k + j)) * 10 ^ j = (of_int m + of_int r / 10 ^ k :: rat)"
    by (simp add: power_add field_simps)
  then show ?thesis by (simp add: amount_def powi_add_nat mult.assoc [symmetric])
qed

lemma amount_zero [simp]: "amount m 0 k e = of_int m * 10 powi e"
  by (simp add: amount_def)

lemma held_fraction:
  assumes "held g r k"
  shows "0 \<le> (of_int r / 10 ^ k :: rat)" "of_int r / 10 ^ k < (1 :: rat)"
    and "rounds_away to_nearest g m \<Longrightarrow> 1 / 2 \<le> (of_int r / 10 ^ k :: rat)"
    and "\<not> rounds_away to_nearest g m \<Longrightarrow> of_int r / 10 ^ k \<le> (1 / 2 :: rat)"
proof -
  have r: "0 \<le> r" "r < 10 ^ k" "guard_round to_nearest g = sgn (2 * r - 10 ^ k)"
    using assms by (simp_all add: held_def)
  have "rat_of_int r < rat_of_int (10 ^ k)" using r(2) by (simp only: of_int_less_iff)
  with r(1) show "0 \<le> (of_int r / 10 ^ k :: rat)" "of_int r / 10 ^ k < (1 :: rat)" by simp_all
  { assume "rounds_away to_nearest g m"
    then have "10 ^ k \<le> 2 * r" using r(3) by (auto simp: rounds_away_def sgn_if split: if_splits)
    then have "rat_of_int (10 ^ k) \<le> rat_of_int (2 * r)" by (simp only: of_int_le_iff)
    then show "1 / 2 \<le> (of_int r / 10 ^ k :: rat)" by (simp add: field_simps) }
  { assume "\<not> rounds_away to_nearest g m"
    then have "2 * r \<le> 10 ^ k" using r(3) by (auto simp: rounds_away_def sgn_if split: if_splits)
    then have "rat_of_int (2 * r) \<le> rat_of_int (10 ^ k)" by (simp only: of_int_le_iff)
    then show "of_int r / 10 ^ k \<le> (1 / 2 :: rat)" by (simp add: field_simps) }
qed

lemma round_up_nearest:
  assumes "held g r k" "minMantissa \<le> m" "m \<le> maxMantissa"
    and "round_up (rounds_away to_nearest g m) m e = (m', e')"
  shows "minMantissa \<le> m'" "m' \<le> maxMantissa"
    and "\<bar>of_int m' * 10 powi e' - amount m r k e\<bar> \<le> 10 powi e / 2"
    and "e' = e \<or> e' = e + 1 \<and> 9999999999999999 * 10 powi e < amount m r k e"
proof -
  define f :: rat where "f = of_int r / 10 ^ k"
  note f = held_fraction [OF assms(1), folded f_def]
  have pos: "(0 :: rat) < 10 powi e" by simp
  have err: "\<bar>of_int n * 10 powi e - amount m r k e\<bar> \<le> 10 powi e / 2"
    if "\<bar>of_int n - (of_int m + f)\<bar> \<le> (1 / 2 :: rat)" for n
  proof -
    have "of_int n * 10 powi e - amount m r k e = (of_int n - (of_int m + f)) * 10 powi e"
      by (simp add: amount_def f_def algebra_simps)
    then show ?thesis using mult_right_mono [OF that, of "10 powi e"] pos by (simp add: abs_mult)
  qed
  consider (stay) "\<not> rounds_away to_nearest g m" "m' = m" "e' = e"
    | (up) "rounds_away to_nearest g m" "m < maxMantissa" "m' = m + 1" "e' = e"
    | (carry) "rounds_away to_nearest g m" "m = maxMantissa" "m' = minMantissa" "e' = e + 1"
    using assms(3,4) by (auto simp: round_up_def maxMantissa_def minMantissa_def split: if_splits)
  note cases = this
  from cases show "minMantissa \<le> m'" "m' \<le> maxMantissa"
    using assms(2,3) by (cases; simp add: maxMantissa_def minMantissa_def)+
  have half: "1 / 2 \<le> f \<Longrightarrow> \<bar>of_int (m + 1) - (of_int m + f)\<bar> \<le> (1 / 2 :: rat)"
    "f \<le> 1 / 2 \<Longrightarrow> \<bar>of_int m - (of_int m + f)\<bar> \<le> (1 / 2 :: rat)"
    using f(1,2) by simp_all
  have carry_value: "of_int minMantissa * 10 powi (e + 1) = (of_int (maxMantissa + 1) * 10 powi e :: rat)"
    by (simp add: minMantissa_def maxMantissa_def power_int_add)
  from cases show "\<bar>of_int m' * 10 powi e' - amount m r k e\<bar> \<le> 10 powi e / 2"
  proof cases
    case stay
    with err [OF half(2)] f(4) show ?thesis by simp
  next
    case up
    with err [OF half(1)] f(3) show ?thesis by simp
  next
    case carry
    with err [OF half(1)] f(3) show ?thesis by (simp only: carry_value)
  qed
  from cases show "e' = e \<or> e' = e + 1 \<and> 9999999999999999 * 10 powi e < amount m r k e"
  proof cases
    case carry
    from f(3) [OF carry(1)] have "9999999999999999 < of_int m + f"
      by (simp add: carry(2) maxMantissa_def)
    from mult_strict_right_mono [OF this pos] carry show ?thesis
      by (simp add: amount_def f_def)
  qed simp_all
qed

subsection \<open>Results to the nearest number\<close>

definition nearest_result :: "fault + Number \<Rightarrow> rat \<Rightarrow> bool" where
  "nearest_result res v =
     (case res of
        Inl e \<Rightarrow> e = Overflow_error \<and> 9999999999999999 * 10 powi num_maxExponent < \<bar>v\<bar>
      | Inr z \<Rightarrow> if z = num_zero then \<bar>v\<bar> < 10 powi (num_minExponent + 15)
                 else isnormal z \<and> \<bar>num_value z - v\<bar> \<le> 10 powi exponent z / 2)"

lemma powi10_mono: "e \<le> e' \<Longrightarrow> (10 :: rat) powi e \<le> 10 powi e'"
  by (simp add: power_int_increasing)

lemma amount_bounds:
  assumes "held g r k" "minMantissa \<le> m" "m \<le> maxMantissa"
  shows "10 powi (e + 15) \<le> amount m r k e" "amount m r k e < 10 powi (e + 16)"
proof -
  define f :: rat where "f = of_int r / 10 ^ k"
  note f = held_fraction(1,2) [OF assms(1), folded f_def]
  have m: "(1000000000000000 :: rat) \<le> of_int m" "(of_int m :: rat) \<le> 9999999999999999"
    using assms(2,3) by (simp_all add: minMantissa_def maxMantissa_def)
  have "1000000000000000 \<le> of_int m + f" "of_int m + f < 10000000000000000" using m f by linarith+
  from mult_right_mono [OF this(1), of "10 powi e"] mult_strict_right_mono [OF this(2), of "10 powi e"]
  show "10 powi (e + 15) \<le> amount m r k e" "amount m r k e < 10 powi (e + 16)"
    by (simp_all add: amount_def f_def power_int_add)
qed

text \<open>The end of every operation: round, carry, test the exponent.\<close>

lemma nearest_finish:
  assumes "held g r k" "minMantissa \<le> m" "m \<le> maxMantissa" "num_minExponent \<le> e'" "sg = 1 \<or> sg = - 1"
    and "round_up (rounds_away to_nearest g m) m e = (m', e')"
  shows "nearest_result (if e' > num_maxExponent then Inl Overflow_error
      else Inr \<lparr>mantissa = m' * sg, exponent = e'\<rparr>) (of_int sg * amount m r k e)"
proof -
  note ru = round_up_nearest [OF assms(1-3,6)]
  note ab = amount_bounds [OF assms(1-3), of e]
  have pos: "(0 :: rat) < 10 powi (e + 15)" by simp
  then have "0 \<le> amount m r k e" using ab(1) by linarith
  then have v: "\<bar>of_int sg * amount m r k e\<bar> = amount m r k e"
    using assms(5) by (auto simp: abs_mult)
  show ?thesis
  proof (cases "e' > num_maxExponent")
    case True
    have "9999999999999999 * 10 powi num_maxExponent < amount m r k e"
    proof (cases "e' = e")
      case True
      with \<open>e' > num_maxExponent\<close> have "num_maxExponent + 16 \<le> e + 15" by simp
      from powi10_mono [OF this] ab(1) have "10 powi (num_maxExponent + 16) \<le> amount m r k e" by linarith
      moreover have "(10 :: rat) powi (num_maxExponent + 16) = 10000000000000000 * 10 powi num_maxExponent"
        by (simp add: power_int_add)
      moreover have "(0 :: rat) < 10 powi num_maxExponent" by simp
      ultimately show ?thesis by linarith
    next
      case False
      with ru(4) have "e' = e + 1" and l: "9999999999999999 * 10 powi e < amount m r k e" by auto
      then have "num_maxExponent \<le> e" using True by simp
      from powi10_mono [OF this] l show ?thesis by linarith
    qed
    with True v show ?thesis by (simp add: nearest_result_def)
  next
    case False
    have n: "isnormal \<lparr>mantissa = m' * sg, exponent = e'\<rparr>"
      using ru(1,2) False assms(4,5) by (auto simp: isnormal_def minMantissa_def abs_mult)
    have "m' * sg \<noteq> 0" using ru(1) assms(5) by (auto simp: minMantissa_def)
    then have z: "\<lparr>mantissa = m' * sg, exponent = e'\<rparr> \<noteq> num_zero" by (simp add: num_zero_def)
    have "of_int (m' * sg) * 10 powi e' - of_int sg * amount m r k e
        = of_int sg * (of_int m' * 10 powi e' - amount m r k e)" by (simp add: algebra_simps)
    then have "\<bar>of_int (m' * sg) * 10 powi e' - of_int sg * amount m r k e\<bar> \<le> 10 powi e / 2"
      using ru(3) assms(5) by (auto simp: abs_mult)
    also have "\<dots> \<le> 10 powi e' / 2" using ru(4) powi10_mono [of e e'] by auto
    finally show ?thesis using False n z by (simp add: nearest_result_def num_value_def)
  qed
qed


lemma amount_underflow:
  assumes "held g r k" "minMantissa \<le> m" "m \<le> maxMantissa" "e < num_minExponent" "sg = 1 \<or> sg = - 1"
  shows "\<bar>of_int sg * amount m r k e\<bar> < 10 powi (num_minExponent + 15)"
proof -
  note ab = amount_bounds [OF assms(1-3), of e]
  have "(0 :: rat) < 10 powi (e + 15)" by simp
  then have "0 \<le> amount m r k e" using ab(1) by linarith
  moreover have "(10 :: rat) powi (e + 16) \<le> 10 powi (num_minExponent + 15)"
    using assms(4) by (intro powi10_mono) simp
  ultimately show ?thesis using ab(2) assms(5) by (auto simp: abs_mult)
qed

lemma isnormal_nonzero: "isnormal x \<Longrightarrow> x \<noteq> num_zero \<and> mantissa x \<noteq> 0"
  by (auto simp: isnormal_def num_zero_def minMantissa_def)

lemma sgn1_value: "mantissa x = sgn1 (mantissa x) * \<bar>mantissa x\<bar>" "sgn1 m = 1 \<or> sgn1 m = - 1"
  by (auto simp: sgn1_def)

lemma num_value_sgn: "num_value x = of_int (sgn1 (mantissa x)) * (of_int \<bar>mantissa x\<bar> * 10 powi exponent x)"
  by (auto simp: num_value_def sgn1_def)

lemma held_fresh: "held (if b then set_negative new_Guard else new_Guard) 0 0"
  using held_new by simp

text \<open>
  C31. The product of two numbers is rounded to nearest: it is within half a unit in the last place of
  the exact product, overflows only above the largest number, and is zero only below the smallest.
\<close>

theorem num_mul_nearest:
  assumes x: "isnormal x" and y: "isnormal y"
  shows "nearest_result (num_mul to_nearest x y) (num_value x * num_value y)"
proof -
  define zn where "zn = sgn1 (mantissa x) * sgn1 (mantissa y)"
  define p where "p = \<bar>mantissa x\<bar> * \<bar>mantissa y\<bar>"
  define g0 where "g0 = (if zn = - 1 then set_negative new_Guard else new_Guard)"
  obtain zm ze g where sh: "shrink128 p (exponent x + exponent y) g0 = (zm, ze, g)"
    by (metis prod_cases3)
  obtain m e where ru: "round_up (rounds_away to_nearest g zm) zm ze = (m, e)"
    by (metis surj_pair)
  have zn: "zn = 1 \<or> zn = - 1" by (auto simp: zn_def sgn1_def)
  have b: "1000000000000000 \<le> \<bar>mantissa x\<bar>" "\<bar>mantissa x\<bar> \<le> 9999999999999999"
    "1000000000000000 \<le> \<bar>mantissa y\<bar>" "\<bar>mantissa y\<bar> \<le> 9999999999999999"
    using x y by (simp_all add: isnormal_def minMantissa_def maxMantissa_def)
  have p: "1000000000000000 * 1000000000000000 \<le> p" "p \<le> 9999999999999999 * 9999999999999999"
    unfolding p_def using b by (intro mult_mono; simp)+
  then have p': "0 \<le> p" "p < 2 ^ 128" "minMantissa \<le> p" by (simp_all add: minMantissa_def)
  from shrink128_held [OF sh _ p'(1,2), of 0 0] held_fresh [of "zn = - 1"] p'(3)
  obtain j r where h: "held g r j" "ze = exponent x + exponent y + int j" "zm * 10 ^ j + r = p"
    "minMantissa \<le> zm" "zm \<le> maxMantissa"
    by (auto simp: g0_def)
  have "amount zm r j ze = amount p 0 0 (exponent x + exponent y)"
    using amount_eq [of zm 0 j r p 0] h by simp
  then have v: "num_value x * num_value y = of_int zn * amount zm r j ze"
    by (simp add: num_value_sgn [of x] num_value_sgn [of y] zn_def p_def power_int_add ac_simps)
  have u: "num_mul to_nearest x y =
      (let (xm, xe) = (if e < num_minExponent then (0, exponent num_zero) else (m, e)) in
       if xe > num_maxExponent then Inl Overflow_error else Inr \<lparr>mantissa = xm * zn, exponent = xe\<rparr>)"
    using isnormal_nonzero [OF x] isnormal_nonzero [OF y]
    by (simp add: num_mul_def Let_def zn_def [symmetric] p_def [symmetric] g0_def [symmetric] sh ru)
  show ?thesis
  proof (cases "e < num_minExponent")
    case True
    with round_up_nearest(4) [OF h(1,4,5) ru] have "ze < num_minExponent" by auto
    from amount_underflow [OF h(1,4,5) this zn] True show ?thesis
      by (simp add: u v nearest_result_def num_zero_def num_maxExponent_def)
  next
    case False
    with nearest_finish [OF h(1,4,5) _ zn ru] show ?thesis by (simp add: u v)
  qed
qed

abbreviation num_third :: Number where
  "num_third \<equiv> \<lparr>mantissa = 3333333333333333, exponent = - 16\<rparr>"

lemma third_normal: "isnormal num_third"
  by (simp add: isnormal_def minMantissa_def maxMantissa_def num_minExponent_def num_maxExponent_def)

theorem num_mul_nearest_witness:
  "isnormal num_third \<and>
   nearest_result (num_mul to_nearest num_third num_third) (num_value num_third * num_value num_third)"
  using num_mul_nearest [OF third_normal third_normal] third_normal by blast

subsection \<open>The constructor\<close>

lemma num_normalize_nearest_aux:
  assumes m: "0 < m" "m < 2 ^ 64" and sg: "sg = (if neg then - 1 else 1)"
  shows "nearest_result
      (let (m, e) = scale_up m ex in
       rbind (scale_down m e (if neg then set_negative new_Guard else new_Guard)) (\<lambda>(m, e, g).
         if e < num_minExponent \<or> m < minMantissa then Inr num_zero
         else let (m, e) = round_up (rounds_away to_nearest g m) m e in
           if e > num_maxExponent then Inl Overflow_error
           else Inr \<lparr>mantissa = (if neg then - m else m), exponent = e\<rparr>))
      (of_int sg * (of_int m * 10 powi ex))"
proof -
  obtain m1 e1 where su: "scale_up m ex = (m1, e1)" by (metis surj_pair)
  from scale_up_value [OF su m] obtain j where j: "e1 = ex - int j" "m1 = m * 10 ^ j" "0 < m1"
    "minMantissa \<le> m1 \<or> e1 \<le> num_minExponent" by auto
  have a0: "(of_int m1 :: rat) * 10 powi e1 = of_int m * 10 powi ex"
    using powi_add_nat [of e1 j] j by simp
  then have a1: "amount m1 0 0 e1 = of_int m * 10 powi ex" by simp
  define g0 where "g0 = (if neg then set_negative new_Guard else new_Guard)"
  have sg1: "sg = 1 \<or> sg = - 1" using sg by simp
  note sd = scale_down_held [OF held_fresh [of neg, folded g0_def], of m1 e1]
  show ?thesis
  proof (cases "scale_down m1 e1 g0")
    case (Inl f)
    with sd j(3) obtain q i r where q: "f = Overflow_error" "num_maxExponent \<le> e1 + int i" "maxMantissa < q"
      "0 \<le> r" "q * 10 ^ i + r = m1" by auto
    have "9999999999999999 * 10 powi num_maxExponent < (of_int q + of_int r / 10 ^ i :: rat) * 10 powi (e1 + int i)"
    proof -
      have "(9999999999999999 :: rat) < of_int q" using q(3) by (simp add: maxMantissa_def)
      moreover have "0 \<le> (of_int r / 10 ^ i :: rat)" using q(4) by simp
      ultimately have "(9999999999999999 :: rat) < of_int q + of_int r / 10 ^ i" by linarith
      then have "9999999999999999 * 10 powi (e1 + int i) <
          (of_int q + of_int r / 10 ^ i :: rat) * 10 powi (e1 + int i)"
        by (intro mult_strict_right_mono) simp_all
      moreover have "9999999999999999 * 10 powi num_maxExponent \<le> (9999999999999999 * 10 powi (e1 + int i) :: rat)"
        by (intro mult_left_mono powi10_mono [OF q(2)]) simp
      ultimately show ?thesis by (rule order.strict_trans1 [rotated])
    qed
    then have "9999999999999999 * 10 powi num_maxExponent < amount m1 0 0 e1"
      using amount_eq [of q 0 i r m1 0 e1] q(5) by (simp add: amount_def)
    then have "9999999999999999 * 10 powi num_maxExponent < \<bar>of_int sg * amount m1 0 0 e1\<bar>"
      using sg1 j(3) by (auto simp: abs_mult)
    then show ?thesis using Inl q(1) by (simp add: su g0_def nearest_result_def a0)
  next
    case (Inr t)
    obtain m2 e2 g where t: "t = (m2, e2, g)" by (cases t)
    with sd Inr j(3) obtain i r where h: "held g r i" "e2 = e1 + int i" "m2 * 10 ^ i + r = m1"
      "m2 \<le> maxMantissa" "m1 \<le> maxMantissa \<longrightarrow> m2 = m1 \<and> e2 = e1" "minMantissa \<le> m1 \<longrightarrow> minMantissa \<le> m2"
      by auto
    have v: "of_int m * 10 powi ex = amount m2 r i e2"
      using amount_eq [of m2 0 i r m1 0 e1] h a1 by simp
    obtain m3 e3 where ru: "round_up (rounds_away to_nearest g m2) m2 e2 = (m3, e3)" by (metis surj_pair)
    note ev = Inr [unfolded t g0_def]
    consider (low) "m2 < minMantissa" | (under) "minMantissa \<le> m2" "e2 < num_minExponent"
      | (ok) "minMantissa \<le> m2" "num_minExponent \<le> e2" by linarith
    then show ?thesis
    proof cases
      case low
      with h have "m1 < minMantissa" by linarith
      with j(4) h have e: "m2 = m1" "e1 \<le> num_minExponent" by (auto simp: maxMantissa_def minMantissa_def)
      have "(of_int m1 :: rat) < 1000000000000000"
        using \<open>m1 < minMantissa\<close> by (simp add: minMantissa_def)
      from mult_strict_right_mono [OF this, of "10 powi e1"]
      have "of_int m1 * 10 powi e1 < (10 :: rat) powi (e1 + 15)" by (simp add: power_int_add)
      also have "\<dots> \<le> 10 powi (num_minExponent + 15)" using e by (intro powi10_mono) simp
      finally have "of_int m * 10 powi ex < (10 :: rat) powi (num_minExponent + 15)" using a1 by simp
      moreover have "(0 :: rat) \<le> of_int m * 10 powi ex" using m by simp
      ultimately show ?thesis
        using low sg1 by (auto simp: su ev nearest_result_def abs_mult)
    next
      case under
      with amount_underflow [OF h(1) under(1) h(4) under(2) sg1] v show ?thesis
        by (simp add: su ev nearest_result_def)
    next
      case ok
      have "num_minExponent \<le> e3" using round_up_nearest(4) [OF h(1) ok(1) h(4) ru] ok(2) by auto
      note fin = nearest_finish [OF h(1) ok(1) h(4) this sg1 ru]
      have "m3 * sg = (if neg then - m3 else m3)" using sg by simp
      with fin have "nearest_result (if e3 > num_maxExponent then Inl Overflow_error
          else Inr \<lparr>mantissa = if neg then - m3 else m3, exponent = e3\<rparr>) (of_int sg * amount m2 r i e2)"
        by (simp only:)
      with ok v show ?thesis by (simp add: su ev ru split del: if_split)
    qed
  qed
qed

lemma u64_abs:
  assumes "- (2 ^ 63) \<le> man" "man < 2 ^ 63"
  shows "(if man < 0 then u64 (- u64 man) else u64 man) = \<bar>man\<bar>"
proof (cases "man < 0")
  case True
  then have "- u64 man = - man + - 18446744073709551616" using assms by (simp add: u64_neg)
  moreover have "u64 (- man + - 18446744073709551616) = - man"
    using assms True by (subst u64_neg) simp_all
  ultimately show ?thesis using True by simp
qed (use assms in simp)

lemma num_normalize_nearest':
  assumes "- (2 ^ 63) \<le> man" "man < 2 ^ 63"
  shows "nearest_result (num_normalize to_nearest man ex) (of_int man * 10 powi ex)"
proof (cases "man = 0")
  case True
  then show ?thesis by (simp add: num_normalize_def nearest_result_def)
next
  case False
  have a: "(if man < 0 then u64 (- u64 man) else u64 man) = \<bar>man\<bar>" using assms by (rule u64_abs)
  have v: "of_int (if man < 0 then - 1 else 1) * (of_int \<bar>man\<bar> * 10 powi ex) = (of_int man * 10 powi ex :: rat)"
    by auto
  have "0 < \<bar>man\<bar>" "\<bar>man\<bar> < 2 ^ 64" using False assms by auto
  from num_normalize_nearest_aux [OF this refl, where neg = "man < 0" and ex = ex] show ?thesis
    unfolding v num_normalize_def Let_def a using False by (simp only: if_False)
qed

text \<open>
  C33. \<open>Number{mantissa, exponent}\<close> rounds any 64-bit mantissa to the nearest number.
\<close>

theorem num_normalize_nearest:
  assumes "- (2 ^ 63) \<le> man" "man < 2 ^ 63"
  shows "nearest_result (num_normalize to_nearest man ex) (of_int man * 10 powi ex)"
  using assms by (rule num_normalize_nearest')

theorem num_normalize_nearest_witness:
  "nearest_result (num_normalize to_nearest (- 12345678901234567) 3) (of_int (- 12345678901234567) * 10 powi 3)"
  by (rule num_normalize_nearest) simp_all

subsection \<open>Sums\<close>

lemma align_held:
  assumes "align m e t g = (m', e', g')" "held g r k" "0 \<le> m" "e \<le> t"
  shows "\<exists>j r'. held g' r' (k + j) \<and> e' = t \<and> t = e + int j \<and> m' * 10 ^ (k + j) + r' = m * 10 ^ k + r \<and>
    0 \<le> m' \<and> m' \<le> m \<and> (0 < j \<longrightarrow> m' \<le> m div 10) \<and> sbit g' = sbit g"
  using assms
proof (induction m e t g arbitrary: r k rule: align.induct)
  case (1 m e t g)
  show ?case
  proof (cases "e < t")
    case True
    with "1.prems"(1) have s: "align (m div 10) (e + 1) t (guard_push (m mod 10) g) = (m', e', g')"
      by (simp add: align.simps [of m])
    have b: "0 \<le> m div 10" "m div 10 \<le> m" using "1.prems"(3) by auto
    from "1.IH" [OF True s held_step(1) [OF "1.prems"(2,3)] b(1)] True obtain j r' where
      "held g' r' (Suc k + j)" "e' = t" "t = e + 1 + int j"
      "m' * 10 ^ (Suc k + j) + r' = m div 10 * 10 ^ Suc k + (m mod 10 * 10 ^ k + r)"
      "0 \<le> m'" "m' \<le> m div 10" "sbit g' = sbit g" by auto
    with held_step(2) [OF "1.prems"(2,3)] b show ?thesis
      by (intro exI [of _ "Suc j"] exI [of _ r']) simp
  next
    case False
    with "1.prems" show ?thesis
      by (intro exI [of _ 0] exI [of _ r]) (simp add: align.simps [of m])
  qed
qed

lemma add_same_nearest:
  assumes h: "held g r k" and s: "minMantissa \<le> xm + ym" "xm + ym \<le> 2 * maxMantissa"
    and e: "num_minExponent \<le> e" and sg: "sg = 1 \<or> sg = - 1"
  shows "nearest_result (rbind (add_same to_nearest xm ym e g) (\<lambda>(m, e). Inr \<lparr>mantissa = m * sg, exponent = e\<rparr>))
    (of_int sg * amount (xm + ym) r k e)"
proof -
  have fin: "nearest_result (rbind (let (m, e) = round_up (rounds_away to_nearest g' m) m e' in
        if e > num_maxExponent then Inl Overflow_error else Inr (m, e))
        (\<lambda>(m, e). Inr \<lparr>mantissa = m * sg, exponent = e\<rparr>)) (of_int sg * amount m r' k' e')"
    if h': "held g' r' k'" and m: "minMantissa \<le> m" "m \<le> maxMantissa" and e': "num_minExponent \<le> e'"
    for g' r' k' m e'
  proof -
    obtain m3 e3 where ru: "round_up (rounds_away to_nearest g' m) m e' = (m3, e3)" by (metis surj_pair)
    have "num_minExponent \<le> e3" using round_up_nearest(4) [OF h' m ru] e' by auto
    from nearest_finish [OF h' m this sg ru] show ?thesis by (simp add: ru split: if_splits)
  qed
  show ?thesis
  proof (cases "xm + ym > maxMantissa")
    case True
    have d: "minMantissa \<le> (xm + ym) div 10" "(xm + ym) div 10 \<le> maxMantissa"
      using True s(2) by (simp_all add: maxMantissa_def minMantissa_def)
    have "0 \<le> xm + ym" using s(1) by (simp add: minMantissa_def)
    note st = held_step [OF h this]
    have "amount ((xm + ym) div 10) ((xm + ym) mod 10 * 10 ^ k + r) (Suc k) (e + 1) = amount (xm + ym) r k e"
      using amount_eq [of "(xm + ym) div 10" k 1 "(xm + ym) mod 10 * 10 ^ k + r" "xm + ym" r e] st(2) by simp
    with fin [OF st(1) d, of "e + 1"] e True show ?thesis by (simp add: add_same_def Let_def)
  next
    case False
    with fin [OF h s(1) _ e] show ?thesis by (simp add: add_same_def Let_def)
  qed
qed

lemma num_add_unfold:
  assumes "isnormal x" "isnormal y" "sgn1 (mantissa x) = sgn1 (mantissa y)"
  shows "num_add mode x y =
    (if exponent x < exponent y then
       let (m, e, g) = align \<bar>mantissa x\<bar> (exponent x) (exponent y)
         (if sgn1 (mantissa x) = - 1 then set_negative new_Guard else new_Guard)
       in rbind (add_same mode m \<bar>mantissa y\<bar> e g)
         (\<lambda>(m, e). Inr \<lparr>mantissa = m * sgn1 (mantissa x), exponent = e\<rparr>)
     else
       let (m, e, g) = align \<bar>mantissa y\<bar> (exponent y) (exponent x)
         (if exponent x > exponent y \<and> sgn1 (mantissa y) = - 1 then set_negative new_Guard else new_Guard)
       in rbind (add_same mode \<bar>mantissa x\<bar> m (exponent x) g)
         (\<lambda>(m, e). Inr \<lparr>mantissa = m * sgn1 (mantissa x), exponent = e\<rparr>))"
proof -
  have "x \<noteq> num_negate y"
    using assms(3) isnormal_nonzero [OF assms(1)]
    by (cases x; cases y) (auto simp: num_negate_def sgn1_def split: if_splits)
  with isnormal_nonzero [OF assms(1)] isnormal_nonzero [OF assms(2)] assms(3) show ?thesis
    unfolding num_add_def Let_def by (simp split: prod.splits)
qed

lemma num_add_same_sign_nearest':
  assumes "isnormal x" "isnormal y" "sgn1 (mantissa x) = sgn1 (mantissa y)"
  shows "nearest_result (num_add to_nearest x y) (num_value x + num_value y)"
proof -
  define sg where "sg = sgn1 (mantissa x)"
  have sg: "sg = 1 \<or> sg = - 1" by (simp add: sg_def sgn1_def)
  have b: "minMantissa \<le> \<bar>mantissa x\<bar>" "\<bar>mantissa x\<bar> \<le> maxMantissa" "num_minExponent \<le> exponent x"
    "minMantissa \<le> \<bar>mantissa y\<bar>" "\<bar>mantissa y\<bar> \<le> maxMantissa" "num_minExponent \<le> exponent y"
    using assms(1,2) by (simp_all add: isnormal_def)
  have v: "num_value x = of_int sg * (of_int \<bar>mantissa x\<bar> * 10 powi exponent x)"
    "num_value y = of_int sg * (of_int \<bar>mantissa y\<bar> * 10 powi exponent y)"
    using num_value_sgn [of x] num_value_sgn [of y] assms(3) by (simp_all add: sg_def)
  have add: "amount (a + c) r k e = amount a r k e + of_int c * 10 powi e" for a c r k e
    by (simp add: amount_def algebra_simps)
  show ?thesis
  proof (cases "exponent x < exponent y")
    case True
    obtain m e g where al: "align \<bar>mantissa x\<bar> (exponent x) (exponent y)
        (if sg = - 1 then set_negative new_Guard else new_Guard) = (m, e, g)" by (metis prod_cases3)
    from align_held [OF al held_fresh] True obtain j r where h: "held g r j" "e = exponent y"
      "exponent y = exponent x + int j" "m * 10 ^ j + r = \<bar>mantissa x\<bar>" "0 \<le> m" "m \<le> \<bar>mantissa x\<bar>" by auto
    have "amount m r j e = of_int \<bar>mantissa x\<bar> * 10 powi exponent x"
      using amount_eq [of m 0 j r "\<bar>mantissa x\<bar>" 0 "exponent x"] h by simp
    then have "num_value x + num_value y = of_int sg * amount (m + \<bar>mantissa y\<bar>) r j e"
      using h(2) by (simp add: v add distrib_left)
    moreover have "minMantissa \<le> m + \<bar>mantissa y\<bar>" "m + \<bar>mantissa y\<bar> \<le> 2 * maxMantissa" using b h by linarith+
    ultimately show ?thesis
      using add_same_nearest [OF h(1) _ _ _ sg, of m "\<bar>mantissa y\<bar>" e] b(6) h(2) True al
      by (simp add: num_add_unfold [OF assms] sg_def)
  next
    case False
    obtain m e g where al: "align \<bar>mantissa y\<bar> (exponent y) (exponent x)
        (if exponent x > exponent y \<and> sg = - 1 then set_negative new_Guard else new_Guard) = (m, e, g)"
      by (metis prod_cases3)
    from align_held [OF al held_fresh] False obtain j r where h: "held g r j"
      "exponent x = exponent y + int j" "m * 10 ^ j + r = \<bar>mantissa y\<bar>" "0 \<le> m" "m \<le> \<bar>mantissa y\<bar>" by auto
    have "amount m r j (exponent x) = of_int \<bar>mantissa y\<bar> * 10 powi exponent y"
      using amount_eq [of m 0 j r "\<bar>mantissa y\<bar>" 0 "exponent y"] h by simp
    then have "num_value x + num_value y = of_int sg * amount (\<bar>mantissa x\<bar> + m) r j (exponent x)"
      by (simp add: v add [of m] add.commute [of "\<bar>mantissa x\<bar>"] distrib_left)
    moreover have "minMantissa \<le> \<bar>mantissa x\<bar> + m" "\<bar>mantissa x\<bar> + m \<le> 2 * maxMantissa" using b h by linarith+
    ultimately show ?thesis
      using add_same_nearest [OF h(1) _ _ _ sg, of "\<bar>mantissa x\<bar>" m "exponent x"] b(3) False al assms(3)
      by (simp add: num_add_unfold [OF assms] sg_def)
  qed
qed

text \<open>
  C34. The sum of two numbers of the same sign is rounded to nearest.
\<close>

theorem num_add_same_sign_nearest:
  assumes "isnormal x" "isnormal y" "sgn1 (mantissa x) = sgn1 (mantissa y)"
  shows "nearest_result (num_add to_nearest x y) (num_value x + num_value y)"
  using assms by (rule num_add_same_sign_nearest')

theorem num_add_same_sign_nearest_witness:
  "isnormal num_third \<and>
   nearest_result (num_add to_nearest num_third num_third) (num_value num_third + num_value num_third)"
  using num_add_same_sign_nearest [OF third_normal third_normal refl] third_normal by blast

subsection \<open>Comparison\<close>

lemma num_value_bounds:
  assumes "isnormal x"
  shows "10 powi (exponent x + 15) \<le> \<bar>num_value x\<bar>" "\<bar>num_value x\<bar> < 10 powi (exponent x + 16)"
proof -
  have m: "(1000000000000000 :: rat) \<le> of_int \<bar>mantissa x\<bar>" "(of_int \<bar>mantissa x\<bar> :: rat) < 10000000000000000"
    using assms by (simp_all add: isnormal_def minMantissa_def maxMantissa_def del: of_int_abs)
  from mult_right_mono [OF m(1), of "10 powi exponent x"] mult_strict_right_mono [OF m(2), of "10 powi exponent x"]
  show "10 powi (exponent x + 15) \<le> \<bar>num_value x\<bar>" "\<bar>num_value x\<bar> < 10 powi (exponent x + 16)"
    by (simp_all add: num_value_def abs_mult power_int_add)
qed

lemma powi10_not_neg: "\<not> (10 :: rat) powi e < 0"
  by (simp add: not_less)

lemma num_value_sign:
  "num_value x < 0 \<longleftrightarrow> mantissa x < 0" "num_value x = 0 \<longleftrightarrow> mantissa x = 0" "0 < num_value x \<longleftrightarrow> 0 < mantissa x"
  by (simp_all add: num_value_def zero_less_mult_iff mult_less_0_iff powi10_not_neg)

lemma smaller_exponent:
  assumes "isnormal x" "isnormal y" "exponent x < exponent y"
  shows "\<bar>num_value x\<bar> < \<bar>num_value y\<bar>"
proof -
  have "(10 :: rat) powi (exponent x + 16) \<le> 10 powi (exponent y + 15)"
    using assms(3) by (intro powi10_mono) simp
  with num_value_bounds [OF assms(1)] num_value_bounds [OF assms(2)] show ?thesis by linarith
qed

lemma num_less_value:
  assumes "isnormal x \<or> x = num_zero" "isnormal y \<or> y = num_zero"
  shows "num_less x y \<longleftrightarrow> num_value x < num_value y"
proof -
  consider (signs) "(mantissa x < 0) \<noteq> (mantissa y < 0)" | (zero) "mantissa x = 0 \<or> mantissa y = 0"
      "(mantissa x < 0) = (mantissa y < 0)"
    | (same) "mantissa x \<noteq> 0" "mantissa y \<noteq> 0" "(mantissa x < 0) = (mantissa y < 0)" by blast
  then show ?thesis
  proof cases
    case signs
    then show ?thesis
      by (auto simp: num_less_def Let_def simp flip: num_value_sign)
  next
    case zero
    then show ?thesis
      by (auto simp: num_less_def Let_def simp flip: num_value_sign)
  next
    case same
    then have n: "isnormal x" "isnormal y" using assms by (auto simp: num_zero_def)
    have s: "num_value x < 0 \<longleftrightarrow> mantissa x < 0" "num_value y < 0 \<longleftrightarrow> mantissa x < 0"
      "num_value x > 0 \<longleftrightarrow> \<not> mantissa x < 0" "num_value y > 0 \<longleftrightarrow> \<not> mantissa x < 0"
      using same by (auto simp: num_value_sign)
    consider "exponent x < exponent y" | "exponent y < exponent x" | "exponent x = exponent y" by linarith
    then show ?thesis
    proof cases
      case 1
      from smaller_exponent [OF n 1] 1 same s show ?thesis by (auto simp: num_less_def Let_def)
    next
      case 2
      from smaller_exponent [OF n(2,1) 2] 2 same s show ?thesis by (auto simp: num_less_def Let_def)
    next
      case 3
      with same show ?thesis by (auto simp: num_less_def Let_def num_value_def)
    qed
  qed
qed

subsection \<open>Conversion to integers\<close>




end
