(* ===== verification/Number_Subtract.thy ===== *)
theory Number_Subtract
  imports Number_Rounding
begin

unbundle bit_operations_syntax

text \<open>
  Sums of numbers of opposite sign. The digits of the smaller operand that do not fit are kept as a
  list, most significant first, of which the guard is the packed form as long as there are at most
  sixteen; the loop of \<open>operator+=\<close> takes them back one by one. It always ends, and the result is
  within half a unit in the last place except next below a power of ten, where one digit is lost.
\<close>

subsection \<open>Lists of guard digits\<close>

definition guard_of :: "bool \<Rightarrow> int list \<Rightarrow> Guard" where
  "guard_of sb ds = foldr guard_push ds (if sb then set_negative new_Guard else new_Guard)"

fun dec :: "int list \<Rightarrow> int" where
  "dec [] = 0"
| "dec (d # ds) = d * 10 ^ length ds + dec ds"

definition decimal :: "int list \<Rightarrow> bool" where
  "decimal ds \<longleftrightarrow> (\<forall>d \<in> set ds. 0 \<le> d \<and> d < 10)"

definition frac :: "int list \<Rightarrow> rat" where
  "frac ds = of_int (dec ds) / 10 ^ length ds"

lemma guard_of_Cons [simp]: "guard_of sb (d # ds) = guard_push d (guard_of sb ds)"
  by (simp add: guard_of_def)

lemma decimal_simps [simp]: "decimal []" "decimal (d # ds) \<longleftrightarrow> 0 \<le> d \<and> d < 10 \<and> decimal ds"
  by (auto simp: decimal_def)

lemma frac_simps [simp]: "frac [] = 0" "frac (d # ds) = (of_int d + frac ds) / 10"
  by (simp_all add: frac_def field_simps)

lemma guard_of_held: "decimal ds \<Longrightarrow> held (guard_of sb ds) (dec ds) (length ds)"
  by (induction ds) (auto simp: guard_of_def held_new intro: held_push)

lemmas guard_of_frac = held_fraction [OF guard_of_held, folded frac_def]

lemma guard_of_range: "decimal ds \<Longrightarrow> 0 \<le> digits (guard_of sb ds) \<and> digits (guard_of sb ds) < 2 ^ 64"
  using guard_of_held [of ds sb] by (simp add: held_def)

lemma guard_of_low:
  "decimal ds \<Longrightarrow> length ds \<le> 16 \<Longrightarrow> 16 ^ (16 - length ds) dvd digits (guard_of sb ds)"
proof (induction ds)
  case (Cons d ds)
  then obtain c where c: "digits (guard_of sb ds) = 16 ^ (16 - length ds) * c" by auto
  have n: "16 - length ds = Suc (15 - length ds)" using Cons.prems by simp
  have "digits (guard_of sb ds) div 16 = 16 ^ (15 - length ds) * c" by (simp add: c n)
  moreover have "(16 :: int) ^ (15 - length ds) dvd 2 ^ 60"
    using le_imp_power_dvd [of "15 - length ds" 15 "16 :: int"] by simp
  moreover have "digits (guard_of sb (d # ds)) = digits (guard_of sb ds) div 16 + d * 2 ^ 60"
    using Cons.prems guard_of_range [of ds sb] guard_push_digits(1) [of "guard_of sb ds" d] by simp
  ultimately show ?case by simp
qed (auto simp: guard_of_def new_Guard_def set_negative_def)

lemma guard_of_low16:
  assumes "decimal ds" "length ds \<le> 15"
  shows "digits (guard_of sb ds) mod 16 = 0"
proof -
  have "(16 :: int) dvd 16 ^ (16 - length ds)" using assms(2) by simp
  then have "16 dvd digits (guard_of sb ds)" using guard_of_low [OF assms(1), of sb] assms(2) dvd_trans by force
  then show ?thesis by simp
qed

lemma guard_of_xbit: "decimal ds \<Longrightarrow> length ds \<le> 16 \<Longrightarrow> \<not> xbit (guard_of sb ds)"
proof (induction ds)
  case (Cons d ds)
  then show ?case
    using guard_of_range [of ds sb] guard_push_digits(2) [of "guard_of sb ds" d] guard_of_low16 [of ds sb] by simp
qed (auto simp: guard_of_def new_Guard_def set_negative_def)

lemma top_nibble:
  assumes "0 \<le> (D :: int)" "D < 2 ^ 64"
  shows "drop_bit 60 (D AND 0xF000000000000000) = D div 2 ^ 60"
proof -
  have "drop_bit 60 (0xF000000000000000 :: int) = 0xF" by (simp add: drop_bit_eq_div)
  then have "drop_bit 60 (D AND 0xF000000000000000) = (D div 2 ^ 60) AND 0xF"
    unfolding drop_bit_and by (simp only: drop_bit_eq_div)
  also have "\<dots> = D div 2 ^ 60" using assms by (simp add: and_0xF_mod)
  finally show ?thesis .
qed

lemma pop_guard_of:
  assumes "decimal (d # ds)" "length ds \<le> 15"
  shows "guard_pop (guard_of sb (d # ds)) = (d, guard_of sb ds)"
proof -
  define X where "X = digits (guard_of sb ds)"
  have X: "0 \<le> X" "X < 2 ^ 64" using guard_of_range [of ds sb] assms(1) by (simp_all add: X_def)
  have m: "X mod 16 = 0" using guard_of_low16 [of ds sb] assms by (simp add: X_def)
  define D where "D = digits (guard_of sb (d # ds))"
  have D: "D = X div 16 + d * 2 ^ 60"
    using guard_push_digits(1) [of "guard_of sb ds" d] X assms(1) by (simp add: X_def D_def)
  have q: "0 \<le> X div 16" "X div 16 < 2 ^ 60" using X by auto
  have "D div 2 ^ 60 = d" using q by (simp add: D)
  moreover have "0 \<le> D" "D < 2 ^ 64" using guard_of_range [of "d # ds" sb] assms(1) by (simp_all add: D_def)
  ultimately have t: "drop_bit 60 (D AND 0xF000000000000000) = d" using top_nibble [of D] by simp
  have "push_bit 4 D = X + d * 2 ^ 64"
    using m mult_div_mod_eq [of 16 X] by (simp add: push_bit_eq_mult D)
  then have "u64 (push_bit 4 D) = X" using X by (simp add: u64_def)
  with t show ?thesis
    using guard_of_xbit [of "d # ds" sb] guard_of_xbit [of ds sb] assms
    by (auto simp: guard_pop_def D_def X_def intro!: Guard.equality)
qed

lemma pop_guard_empty: "guard_pop (guard_of sb []) = (0, guard_of sb [])"
  by (simp add: guard_pop_def guard_of_def new_Guard_def set_negative_def u64_def)


subsection \<open>Taking the digits back\<close>

lemma take_digits_done: "minMantissa \<le> xm \<Longrightarrow> take_digits fuel xm xe g = Some (xm, xe, g)"
  by (simp add: take_digits.simps)

lemma take_digits_step:
  "xm < minMantissa \<Longrightarrow> guard_pop g = (d, g') \<Longrightarrow>
     take_digits (Suc n) xm xe g = take_digits n (xm * 10 - d) (xe - 1) g'"
  by (simp add: take_digits.simps [of "Suc n"])

text \<open>The value of a mantissa from which the digits \<open>ds\<close> behind its point are still to be subtracted.\<close>

definition short_of :: "int \<Rightarrow> int list \<Rightarrow> int \<Rightarrow> rat" where
  "short_of m ds e = (of_int m - frac ds) * 10 powi e"

definition taken :: "int \<Rightarrow> int \<Rightarrow> int list \<Rightarrow> bool \<Rightarrow> (int \<times> int \<times> Guard) option \<Rightarrow> bool" where
  "taken xm xe ds sb res \<longleftrightarrow> (\<exists>m e ds'. res = Some (m, e, guard_of sb ds') \<and> minMantissa \<le> m \<and>
     m \<le> maxMantissa \<and> decimal ds' \<and> e \<le> xe \<and> short_of m ds' e = short_of xm ds xe)"

lemma taken_done:
  "minMantissa \<le> xm \<Longrightarrow> xm \<le> maxMantissa \<Longrightarrow> decimal ds \<Longrightarrow>
     taken xm xe ds sb (take_digits fuel xm xe (guard_of sb ds))"
  unfolding taken_def by (intro exI [of _ xm] exI [of _ xe] exI [of _ ds]) (simp add: take_digits_done)

lemma short_of_step: "short_of (m * 10 - d) ds (e - 1) = short_of m (d # ds) e"
  by (simp add: short_of_def power_int_diff field_simps)

lemma short_of_step0: "short_of (m * 10) [] (e - 1) = short_of m [] e"
  by (simp add: short_of_def power_int_diff)

lemma taken_zeros:
  "0 < xm \<Longrightarrow> xm \<le> maxMantissa \<Longrightarrow> minMantissa \<le> xm * 10 ^ k \<Longrightarrow> k \<le> fuel \<Longrightarrow>
     taken xm xe [] sb (take_digits fuel xm xe (guard_of sb []))"
proof (induction k arbitrary: fuel xm xe)
  case 0
  then show ?case by (intro taken_done) simp_all
next
  case (Suc k)
  show ?case
  proof (cases "minMantissa \<le> xm")
    case True
    with Suc.prems show ?thesis by (intro taken_done) simp_all
  next
    case False
    obtain n where n: "fuel = Suc n" using Suc.prems(4) by (cases fuel) auto
    have "taken (xm * 10) (xe - 1) [] sb (take_digits n (xm * 10) (xe - 1) (guard_of sb []))"
      using Suc.prems False n by (intro Suc.IH) (simp_all add: minMantissa_def maxMantissa_def)
    with False n take_digits_step [OF _ pop_guard_empty] show ?thesis
      by (fastforce simp: taken_def short_of_step0)
  qed
qed

lemma taken_digits:
  "0 < xm \<Longrightarrow> xm \<le> maxMantissa \<Longrightarrow> decimal ds \<Longrightarrow> length ds \<le> 16 \<or> minMantissa \<le> xm \<Longrightarrow>
     min 16 (length ds) + 15 \<le> fuel \<Longrightarrow> taken xm xe ds sb (take_digits fuel xm xe (guard_of sb ds))"
proof (induction ds arbitrary: fuel xm xe)
  case Nil
  then show ?case by (intro taken_zeros [of _ 15]) (simp_all add: minMantissa_def)
next
  case (Cons d ds)
  show ?case
  proof (cases "minMantissa \<le> xm")
    case True
    with Cons.prems show ?thesis by (intro taken_done) simp_all
  next
    case False
    obtain n where n: "fuel = Suc n" using Cons.prems(5) by (cases fuel) auto
    have "taken (xm * 10 - d) (xe - 1) ds sb (take_digits n (xm * 10 - d) (xe - 1) (guard_of sb ds))"
      using Cons.prems False n by (intro Cons.IH) (auto simp: minMantissa_def maxMantissa_def)
    moreover have "take_digits fuel xm xe (guard_of sb (d # ds)) =
        take_digits n (xm * 10 - d) (xe - 1) (guard_of sb ds)"
      unfolding n using False Cons.prems by (intro take_digits_step pop_guard_of) auto
    ultimately show ?thesis by (fastforce simp: taken_def short_of_step)
  qed
qed


text \<open>Rounding the rest away; \<open>opposite_ok\<close> says how close the result is to the exact value \<open>v\<close>.\<close>

definition opposite_ok :: "int \<Rightarrow> int \<Rightarrow> rat \<Rightarrow> bool" where
  "opposite_ok m e v \<longleftrightarrow>
     m = 0 \<and> e = exponent num_zero \<and> \<bar>v\<bar> < 10 powi (num_minExponent + 15) \<or>
     minMantissa \<le> m \<and> m \<le> maxMantissa \<and> num_minExponent \<le> e \<and>
     \<bar>of_int m * 10 powi e - v\<bar> \<le> (if m = 9999999999999990 then 5 else 1 / 2) * 10 powi e"

lemma short_of_bounds:
  assumes "decimal ds" "minMantissa \<le> m" "m \<le> maxMantissa"
  shows "0 < short_of m ds e" "short_of m ds e < 10 powi (e + 16)"
proof -
  have "1000000000000000 \<le> rat_of_int m" "rat_of_int m \<le> 9999999999999999"
    using assms(2,3) by (simp_all add: minMantissa_def maxMantissa_def)
  then have b: "0 < of_int m - frac ds" "of_int m - frac ds < 10000000000000000"
    using guard_of_frac(1,2) [OF assms(1)] by linarith+
  then show "0 < short_of m ds e" by (simp add: short_of_def)
  from mult_strict_right_mono [OF b(2), of "10 powi e"] show "short_of m ds e < 10 powi (e + 16)"
    by (simp add: short_of_def power_int_add)
qed

lemma opposite_half:
  assumes "minMantissa \<le> m" "m \<le> maxMantissa" "num_minExponent \<le> e"
    and "\<bar>of_int m * 10 powi e - v\<bar> \<le> 1 / 2 * 10 powi e"
  shows "opposite_ok m e v"
proof -
  have "(0 :: rat) < 10 powi e" by simp
  with assms(4) have "\<bar>of_int m * 10 powi e - v\<bar> \<le> 5 * 10 powi e" by linarith
  with assms show ?thesis by (cases "m = 9999999999999990") (simp_all add: opposite_ok_def)
qed

lemma round_down_digits:
  assumes d: "decimal ds" and m: "minMantissa \<le> m" "m \<le> maxMantissa"
    and r: "(m', e') = (if rounds_away to_nearest (guard_of sb ds) m
        then if m - 1 < minMantissa then ((m - 1) * 10, e - 1) else (m - 1, e) else (m, e))"
  shows "opposite_ok (if e' < num_minExponent then 0 else m')
    (if e' < num_minExponent then exponent num_zero else e') (short_of m ds e)"
    and "e' \<le> e"
proof -
  show "e' \<le> e" using r by (auto split: if_splits)
  define f where "f = frac ds"
  note f = guard_of_frac(1,2) [OF d, folded f_def]
    guard_of_frac(3,4) [OF d, where sb = sb and m = m, folded f_def]
  have sb: "0 < short_of m ds e" "short_of m ds e < 10 powi (e + 16)" using short_of_bounds [OF d m] by auto
  have v: "short_of m ds e = (of_int m - f) * 10 powi e" by (simp add: short_of_def f_def)
  have pos: "(0 :: rat) < 10 powi e" by simp
  consider (stay) "\<not> rounds_away to_nearest (guard_of sb ds) m" "m' = m" "e' = e"
    | (down) "rounds_away to_nearest (guard_of sb ds) m" "minMantissa \<le> m - 1" "m' = m - 1" "e' = e"
    | (lose) "rounds_away to_nearest (guard_of sb ds) m" "m = minMantissa" "m' = 9999999999999990" "e' = e - 1"
  proof (cases "m - 1 < minMantissa")
    case True
    with m(1) have "m = minMantissa" by linarith
    with r that show thesis by (auto simp: minMantissa_def split: if_splits)
  next
    case False
    with r that show thesis by (auto split: if_splits)
  qed
  then show "opposite_ok (if e' < num_minExponent then 0 else m')
    (if e' < num_minExponent then exponent num_zero else e') (short_of m ds e)"
  proof cases
    case stay
    show ?thesis
    proof (cases "e < num_minExponent")
      case True
      then have "(10 :: rat) powi (e + 16) \<le> 10 powi (num_minExponent + 15)" by (intro powi10_mono) simp
      with sb stay True show ?thesis by (simp add: opposite_ok_def)
    next
      case False
      have "of_int m * 10 powi e - short_of m ds e = f * 10 powi e" by (simp add: v algebra_simps)
      moreover have "\<bar>f * 10 powi e\<bar> \<le> 1 / 2 * 10 powi e"
        using f(1) f(4) [OF stay(1)] by (simp add: abs_mult)
      ultimately show ?thesis using stay False m opposite_half [of m e] by simp
    qed
  next
    case down
    show ?thesis
    proof (cases "e < num_minExponent")
      case True
      then have "(10 :: rat) powi (e + 16) \<le> 10 powi (num_minExponent + 15)" by (intro powi10_mono) simp
      with sb down True show ?thesis by (simp add: opposite_ok_def)
    next
      case False
      have "of_int (m - 1) * 10 powi e - short_of m ds e = (f - 1) * 10 powi e" by (simp add: v algebra_simps)
      moreover have "\<bar>(f - 1) * 10 powi e\<bar> \<le> 1 / 2 * 10 powi e"
        using f(2) f(3) [OF down(1)] by (simp add: abs_mult)
      ultimately show ?thesis using down False m opposite_half [of "m - 1" e] by simp
    qed
  next
    case lose
    have e1: "(10 :: rat) powi e = 10 * 10 powi (e - 1)" by (simp add: power_int_diff)
    have lt: "short_of m ds e < 10 powi (e + 15)"
    proof -
      have "of_int m - f < 1000000000000000"
        using f(3) [OF lose(1)] by (simp add: lose(2) minMantissa_def)
      from mult_strict_right_mono [OF this pos] show ?thesis unfolding v by (simp add: power_int_add)
    qed
    show ?thesis
    proof (cases "e - 1 < num_minExponent")
      case True
      then have "(10 :: rat) powi (e + 15) \<le> 10 powi (num_minExponent + 15)" by (intro powi10_mono) simp
      with sb(1) lt lose True show ?thesis by (simp add: opposite_ok_def)
    next
      case False
      have "of_int 9999999999999990 * 10 powi (e - 1) - short_of m ds e = (f - 1) * 10 powi e"
        unfolding v by (simp add: lose(2) minMantissa_def e1 algebra_simps)
      moreover have "\<bar>(f - 1) * 10 powi e\<bar> \<le> 1 / 2 * 10 powi e"
        using f(2) f(3) [OF lose(1)] by (simp add: abs_mult)
      ultimately have "\<bar>of_int 9999999999999990 * 10 powi (e - 1) - short_of m ds e\<bar> \<le> 5 * 10 powi (e - 1)"
        by (simp add: e1)
      with lose False show ?thesis by (simp add: opposite_ok_def minMantissa_def maxMantissa_def)
    qed
  qed
qed

lemma add_opposite_ok:
  assumes "0 < xm" "xm \<le> maxMantissa" "decimal ds" "length ds \<le> 16 \<or> minMantissa \<le> xm"
  shows "\<exists>m e. add_opposite to_nearest xm xe (guard_of sb ds) = Inr (m, e) \<and>
    opposite_ok m e (short_of xm ds xe) \<and> (m = 0 \<or> e \<le> xe)"
proof -
  have "min 16 (length ds) + 15 \<le> sub_steps" by (simp add: sub_steps_def min_def)
  from taken_digits [OF assms this, of xe sb] obtain m e ds' where
    t: "take_digits sub_steps xm xe (guard_of sb ds) = Some (m, e, guard_of sb ds')" and
    b: "minMantissa \<le> m" "m \<le> maxMantissa" "decimal ds'" "e \<le> xe" and
    v: "short_of m ds' e = short_of xm ds xe"
    by (auto simp: taken_def)
  obtain m' e' where r: "(m', e') = (if rounds_away to_nearest (guard_of sb ds') m
        then if m - 1 < minMantissa then ((m - 1) * 10, e - 1) else (m - 1, e) else (m, e))"
    by (metis surj_pair)
  from round_down_digits [OF b(3,1,2) r] r [symmetric] b(4) show ?thesis
    by (cases "e' < num_minExponent") (simp_all add: add_opposite_def t v)
qed

subsection \<open>The whole sum\<close>

lemma align_digits:
  assumes "align m e t (guard_of sb ds) = (m', e', g)" "0 \<le> m" "e \<le> t" "decimal ds"
  shows "\<exists>ds'. g = guard_of sb ds' \<and> e' = t \<and> decimal ds' \<and> length ds' = length ds + nat (t - e) \<and>
    (of_int m' + frac ds') * 10 powi t = (of_int m + frac ds) * 10 powi e \<and>
    0 \<le> m' \<and> m' * 10 ^ nat (t - e) \<le> m"
  using assms
proof (induction m e t "guard_of sb ds" arbitrary: ds rule: align.induct)
  case (1 m e t)
  show ?case
  proof (cases "e < t")
    case True
    let ?ds = "m mod 10 # ds"
    have n: "nat (t - e) = Suc (nat (t - (e + 1)))" using True by simp
    have s: "align (m div 10) (e + 1) t (guard_of sb ?ds) = (m', e', g)"
      using True "1.prems"(1) by (simp add: align.simps [of m])
    have p: "0 \<le> m div 10" "e + 1 \<le> t" "decimal ?ds" using True "1.prems" by auto
    from "1.hyps" [OF True _ s p] obtain ds' where ds': "g = guard_of sb ds'" "e' = t" "decimal ds'"
      "length ds' = length ds + nat (t - e)"
      "(of_int m' + frac ds') * 10 powi t = (of_int (m div 10) + frac ?ds) * 10 powi (e + 1)"
      "0 \<le> m'" "m' * 10 ^ nat (t - (e + 1)) \<le> m div 10"
      by (auto simp: n)
    have "of_int m = (10 * of_int (m div 10) + of_int (m mod 10) :: rat)"
      by (metis mult_div_mod_eq of_int_add of_int_mult of_int_numeral)
    then have "(of_int (m div 10) + frac ?ds) * 10 powi (e + 1) = (of_int m + frac ds) * 10 powi e"
      by (simp add: power_int_add field_simps)
    moreover have "m' * 10 ^ nat (t - e) \<le> m"
      using ds'(7) div_bounds [of 10 m] unfolding n by (simp add: mult.left_commute)
    ultimately show ?thesis using ds' by (intro exI [of _ ds']) simp
  next
    case False
    with "1.prems" show ?thesis by (intro exI [of _ ds]) (simp add: align.simps [of m])
  qed
qed

definition opposite_result :: "fault + Number \<Rightarrow> rat \<Rightarrow> bool" where
  "opposite_result res v = (case res of
     Inl _ \<Rightarrow> False
   | Inr z \<Rightarrow> if z = num_zero then \<bar>v\<bar> < 10 powi (num_minExponent + 15)
              else isnormal z \<and> \<bar>num_value z - v\<bar> \<le>
                (if \<bar>mantissa z\<bar> = 9999999999999990 then 5 else 1 / 2) * 10 powi exponent z)"

lemma opposite_finish:
  assumes "0 < d" "d \<le> maxMantissa" "decimal ds" "length ds \<le> 16 \<or> minMantissa \<le> d"
    and e: "e \<le> num_maxExponent" and sg: "sg = 1 \<or> sg = - 1"
  shows "opposite_result (rbind (add_opposite to_nearest d e (guard_of sb ds))
      (\<lambda>(m, e). Inr \<lparr>mantissa = m * sg, exponent = e\<rparr>)) (of_int sg * short_of d ds e)"
proof -
  from add_opposite_ok [OF assms(1-4), of e sb] obtain m e' where
    a: "add_opposite to_nearest d e (guard_of sb ds) = Inr (m, e')"
    and o: "opposite_ok m e' (short_of d ds e)" "m = 0 \<or> e' \<le> e" by blast
  show ?thesis
  proof (cases "m = 0")
    case True
    with o(1) sg show ?thesis by (auto simp: a opposite_ok_def opposite_result_def num_zero_def minMantissa_def abs_mult)
  next
    case False
    with o e have b: "minMantissa \<le> m" "m \<le> maxMantissa" "num_minExponent \<le> e'" "e' \<le> num_maxExponent"
      and err: "\<bar>of_int m * 10 powi e' - short_of d ds e\<bar> \<le> (if m = 9999999999999990 then 5 else 1 / 2) * 10 powi e'"
      by (auto simp: opposite_ok_def)
    have am: "\<bar>m * sg\<bar> = m" using sg b(1) by (auto simp: minMantissa_def)
    have n: "isnormal \<lparr>mantissa = m * sg, exponent = e'\<rparr>" using b by (simp add: isnormal_def am)
    have "of_int (m * sg) * 10 powi e' - of_int sg * short_of d ds e =
        of_int sg * (of_int m * 10 powi e' - short_of d ds e)" by (simp add: algebra_simps)
    then have "\<bar>of_int (m * sg) * 10 powi e' - of_int sg * short_of d ds e\<bar> =
        \<bar>of_int m * 10 powi e' - short_of d ds e\<bar>" using sg by (auto simp: abs_mult)
    with err n isnormal_nonzero [OF n] show ?thesis
      by (simp only: a rbind_Inr prod.case opposite_result_def sum.case if_False num_value_def Number.simps am)
  qed
qed

lemma aligned_small:
  assumes "m' * 10 ^ n \<le> m" "0 \<le> m'" "m \<le> maxMantissa"
  shows "m' \<le> maxMantissa" "0 < n \<Longrightarrow> m' < minMantissa" "16 < n \<Longrightarrow> m' = 0"
proof -
  have "m' * 1 \<le> m' * 10 ^ n" using assms(2) by (intro mult_left_mono) auto
  then show "m' \<le> maxMantissa" using assms by linarith
  have p: "m' * 10 ^ k \<le> maxMantissa" if "k \<le> n" for k
  proof -
    have "m' * 10 ^ k \<le> m' * 10 ^ n" using assms(2) that by (intro mult_left_mono power_increasing) auto
    with assms show ?thesis by linarith
  qed
  show "0 < n \<Longrightarrow> m' < minMantissa" using p [of 1] by (simp add: minMantissa_def maxMantissa_def)
  show "16 < n \<Longrightarrow> m' = 0" using p [of 16] assms(2) by (simp add: maxMantissa_def)
qed

text \<open>The larger operand \<open>a\<close> and the aligned one, of opposite sign.\<close>

lemma opposite_core:
  assumes a: "minMantissa \<le> a" "a \<le> maxMantissa" and b: "0 \<le> b" "b \<le> maxMantissa" "e \<le> t" "t \<le> num_maxExponent"
    and al: "align b e t (guard_of sb []) = (b', t', g)" and ne: "e = t \<Longrightarrow> a \<noteq> b" and sg: "sg = 1 \<or> sg = - 1"
    and res: "res = (if a > b' then rbind (add_opposite to_nearest (a - b') t g) (\<lambda>(m, e). Inr \<lparr>mantissa = m * sg, exponent = e\<rparr>)
      else rbind (add_opposite to_nearest (b' - a) t g) (\<lambda>(m, e). Inr \<lparr>mantissa = m * - sg, exponent = e\<rparr>))"
  shows "opposite_result res (of_int sg * (of_int a * 10 powi t - of_int b * 10 powi e))"
proof -
  from align_digits [OF al b(1,3)] obtain ds where ds: "g = guard_of sb ds" "decimal ds" "length ds = nat (t - e)"
    "(of_int b' + frac ds) * 10 powi t = of_int b * 10 powi e" "0 \<le> b'" "b' * 10 ^ nat (t - e) \<le> b" by auto
  note sm = aligned_small [OF ds(6,5) b(2)]
  have v: "of_int a * 10 powi t - of_int b * 10 powi e = short_of (a - b') ds t"
    using ds(4) by (simp add: short_of_def algebra_simps)
  show ?thesis
  proof (cases "a > b'")
    case True
    have "length ds \<le> 16 \<or> minMantissa \<le> a - b'" using sm(3) ds(3) a(1) by (cases "16 < nat (t - e)") auto
    moreover have "0 < a - b'" "a - b' \<le> maxMantissa" using True a(2) ds(5) by auto
    ultimately show ?thesis
      using opposite_finish [OF _ _ ds(2) _ b(4) sg, of "a - b'" sb] True by (simp add: res ds(1) v)
  next
    case False
    have "\<not> 0 < nat (t - e)" using False sm(2) a(1) by auto
    then have [simp]: "e = t" "ds = []" using b(3) ds(3) by auto
    have "b' = b" using ds(4) by simp
    with False ne have "0 < b' - a" by auto
    moreover have "b' - a \<le> maxMantissa" using sm(1) a(1) by (simp add: minMantissa_def)
    moreover have "- sg = 1 \<or> - sg = - 1" using sg by auto
    ultimately have "opposite_result res (of_int (- sg) * short_of (b' - a) [] t)"
      using opposite_finish [of "b' - a" "[]" t "- sg" sb] b(4) False by (simp add: res ds(1))
    moreover have "of_int (- sg) * short_of (b' - a) [] t = of_int sg * short_of (a - b') ds t"
      by (simp add: short_of_def algebra_simps)
    ultimately show ?thesis by (simp only: v)
  qed
qed

lemma num_add_opposite_sign':
  assumes "isnormal x" "isnormal y" "sgn1 (mantissa x) \<noteq> sgn1 (mantissa y)"
  shows "opposite_result (num_add to_nearest x y) (num_value x + num_value y)"
proof (cases "x = num_negate y")
  case True
  then have "num_value x + num_value y = 0" by (simp add: num_value_def num_negate_def)
  with True isnormal_nonzero [OF assms(1)] isnormal_nonzero [OF assms(2)] show ?thesis
    by (simp add: num_add_def opposite_result_def)
next
  case False
  let ?a = "\<bar>mantissa x\<bar>" and ?b = "\<bar>mantissa y\<bar>" and ?xn = "sgn1 (mantissa x)" and ?yn = "sgn1 (mantissa y)"
  let ?sb = "exponent x < exponent y \<and> ?xn = - 1 \<or> exponent x > exponent y \<and> ?yn = - 1"
  have b: "minMantissa \<le> ?a" "?a \<le> maxMantissa" "exponent x \<le> num_maxExponent"
    "minMantissa \<le> ?b" "?b \<le> maxMantissa" "exponent y \<le> num_maxExponent"
    using assms(1,2) by (simp_all add: isnormal_def)
  have sg: "?xn = 1 \<or> ?xn = - 1" "?yn = 1 \<or> ?yn = - 1" "?yn = - ?xn" using assms(3) by (auto simp: sgn1_def split: if_splits)
  have g0: "(if ?sb then set_negative new_Guard else new_Guard) = guard_of ?sb []" by (simp add: guard_of_def)
  have ne: "?a \<noteq> ?b" if "exponent x = exponent y"
  proof
    assume "?a = ?b"
    with sg(3) have "mantissa x = - mantissa y" by (auto simp: sgn1_def split: if_splits)
    with that False show False by (simp add: num_negate_def)
  qed
  note nz = isnormal_nonzero [OF assms(1)] isnormal_nonzero [OF assms(2)]
  note v = num_value_sgn [of x] num_value_sgn [of y]
  show ?thesis
  proof (cases "exponent x < exponent y")
    case True
    obtain m e g where al: "align ?a (exponent x) (exponent y) (guard_of ?sb []) = (m, e, g)" by (metis prod_cases3)
    from align_digits [OF al] True have m: "e = exponent y" "0 \<le> m" "m * 10 ^ nat (exponent y - exponent x) \<le> ?a" by auto
    have lt: "m < ?b" using aligned_small(2) [OF m(3,2) b(2)] True b(4) by simp
    have "num_add to_nearest x y = rbind (add_opposite to_nearest (?b - m) (exponent y) g)
        (\<lambda>(m, e). Inr \<lparr>mantissa = m * ?yn, exponent = e\<rparr>)"
      unfolding num_add_def Let_def g0 using False True nz lt m(1) al assms(3) by simp
    with opposite_core [OF b(4,5) _ b(2) _ b(6) al _ sg(2), of "num_add to_nearest x y"] True lt
    have "opposite_result (num_add to_nearest x y) (of_int ?yn * (of_int ?b * 10 powi exponent y - of_int ?a * 10 powi exponent x))"
      by simp
    then show ?thesis unfolding v sg(3) by (simp add: algebra_simps)
  next
    case ge: False
    obtain m e g where al: "align ?b (exponent y) (exponent x) (guard_of ?sb []) = (m, e, g)" by (metis prod_cases3)
    have "num_add to_nearest x y =
        (if ?a > m then rbind (add_opposite to_nearest (?a - m) (exponent x) g) (\<lambda>(m, e). Inr \<lparr>mantissa = m * ?xn, exponent = e\<rparr>)
         else rbind (add_opposite to_nearest (m - ?a) (exponent x) g) (\<lambda>(m, e). Inr \<lparr>mantissa = m * - ?xn, exponent = e\<rparr>))"
      unfolding num_add_def Let_def g0 using False ge nz al assms(3) sg(3) by simp
    from opposite_core [OF b(1,2) _ b(5) _ b(3) al _ sg(1) this] ge ne
    have "opposite_result (num_add to_nearest x y) (of_int ?xn * (of_int ?a * 10 powi exponent x - of_int ?b * 10 powi exponent y))"
      by simp
    then show ?thesis unfolding v sg(3) by (simp add: algebra_simps)
  qed
qed

abbreviation num_1e15 :: Number where "num_1e15 \<equiv> \<lparr>mantissa = 1000000000000000, exponent = 0\<rparr>"
abbreviation num_m07 :: Number where "num_m07 \<equiv> \<lparr>mantissa = - 7000000000000000, exponent = - 16\<rparr>"

text \<open>
  C35. The sum of two numbers of opposite sign always returns, without overflow: the loop that takes
  digits back ends within its forty steps. The result is within half a unit in the last place of the
  exact difference, or within five units when its mantissa is 9999999999999990, and zero only below
  the smallest number.
\<close>

theorem num_add_opposite_sign:
  assumes "isnormal x" "isnormal y" "sgn1 (mantissa x) \<noteq> sgn1 (mantissa y)"
  shows "opposite_result (num_add to_nearest x y) (num_value x + num_value y)"
  using assms by (rule num_add_opposite_sign')

theorem num_add_opposite_sign_witness:
  "opposite_result (num_add to_nearest num_1e15 num_m07) (num_value num_1e15 + num_value num_m07)"
  by (rule num_add_opposite_sign)
     (simp_all add: isnormal_def sgn1_def minMantissa_def maxMantissa_def num_minExponent_def num_maxExponent_def)

text \<open>
  The loss next below a power of ten: the exact difference 999999999999999.3 is a number, and the
  result is 999999999999999.0.
\<close>

lemma num_sub_loses_digit:
  "num_add to_nearest num_1e15 num_m07 = Inr \<lparr>mantissa = 9999999999999990, exponent = - 1\<rparr>"
  by code_simp

end
