(* ===== verification/IOU_Amount.thy ===== *)
theory IOU_Amount
  imports Number_Subtract
begin

text \<open>
  \<open>IOUAmount\<close> of \<^verbatim>\<open>src/src/ripple/basics/IOUAmount.h\<close> and \<^verbatim>\<open>src/src/ripple/basics/impl/IOUAmount.cpp\<close>:
  the normalised amounts of issued currencies. \<open>sw\<close> is \<open>getSTNumberSwitchover()\<close>, which chooses between
  \<open>Number\<close> and the older truncating code; \<open>mode\<close> is the rounding mode of \<open>Number\<close>.
\<close>

record IOUAmount =
  iou_mantissa :: int
  iou_exponent :: int

definition iou_minExponent :: int where "iou_minExponent = - 96"
definition iou_maxExponent :: int where "iou_maxExponent = 80"

definition iou_zero :: IOUAmount where
  "iou_zero = \<lparr>iou_mantissa = 0, iou_exponent = - 100\<rparr>"

definition minPositiveAmount :: IOUAmount where
  "minPositiveAmount = \<lparr>iou_mantissa = minMantissa, iou_exponent = iou_minExponent\<rparr>"

function iou_scale_up :: "int \<Rightarrow> int \<Rightarrow> int \<times> int" where
  "iou_scale_up m e =
     (if m < minMantissa \<and> e > iou_minExponent then iou_scale_up (m * 10) (e - 1) else (m, e))"
  by pat_completeness auto
termination
  by (relation "measure (\<lambda>(m, e). nat (e - iou_minExponent))") auto

function iou_scale_down :: "int \<Rightarrow> int \<Rightarrow> fault + (int \<times> int)" where
  "iou_scale_down m e =
     (if m > maxMantissa then
        if e \<ge> iou_maxExponent then Inl Overflow_error else iou_scale_down (m div 10) (e + 1)
      else Inr (m, e))"
  by pat_completeness auto
termination
  by (relation "measure (\<lambda>(m, e). nat m)") (auto simp: maxMantissa_def)

declare iou_scale_up.simps [simp del] iou_scale_down.simps [simp del]

text \<open>\<open>IOUAmount{Number}\<close>\<close>

definition iou_of_number :: "Number \<Rightarrow> fault + IOUAmount" where
  "iou_of_number v =
     (if exponent v > iou_maxExponent then Inl Overflow_error
      else if exponent v < iou_minExponent then Inr iou_zero
      else Inr \<lparr>iou_mantissa = mantissa v, iou_exponent = exponent v\<rparr>)"

text \<open>
  \<open>IOUAmount{mantissa, exponent}\<close>, whose body is \<open>normalize\<close>. Negating the smallest 64-bit integer is
  undefined.
\<close>

definition iou_normalize :: "bool \<Rightarrow> rounding_mode \<Rightarrow> int \<Rightarrow> int \<Rightarrow> fault + IOUAmount" where
  "iou_normalize sw mode man ex =
     (if man = 0 then Inr iou_zero
      else if sw then rbind (num_normalize mode man ex) iou_of_number
      else if man = - (2 ^ 63) then Inl Undefined
      else
        let (m, e) = iou_scale_up \<bar>man\<bar> ex in
        rbind (iou_scale_down m e) (\<lambda>(m, e).
        if e < iou_minExponent \<or> m < minMantissa then Inr iou_zero
        else if e > iou_maxExponent then Inl Overflow_error
        else Inr \<lparr>iou_mantissa = (if man < 0 then - m else m), iou_exponent = e\<rparr>))"

text \<open>\<open>operator Number\<close>\<close>

definition iou_number :: "rounding_mode \<Rightarrow> IOUAmount \<Rightarrow> fault + Number" where
  "iou_number mode a = num_normalize mode (iou_mantissa a) (iou_exponent a)"

definition iou_negate :: "bool \<Rightarrow> rounding_mode \<Rightarrow> IOUAmount \<Rightarrow> fault + IOUAmount" where
  "iou_negate sw mode a = iou_normalize sw mode (- iou_mantissa a) (iou_exponent a)"

definition iou_less :: "rounding_mode \<Rightarrow> IOUAmount \<Rightarrow> IOUAmount \<Rightarrow> fault + bool" where
  "iou_less mode a b =
     rbind (iou_number mode a) (\<lambda>x. rbind (iou_number mode b) (\<lambda>y. Inr (num_less x y)))"

text \<open>C++ division truncates towards zero.\<close>

definition quot10 :: "int \<Rightarrow> int" where
  "quot10 m = (if m < 0 then - (- m div 10) else m div 10)"

function iou_align :: "int \<Rightarrow> int \<Rightarrow> int \<Rightarrow> int \<times> int" where
  "iou_align m e t = (if e < t then iou_align (quot10 m) (e + 1) t else (m, e))"
  by pat_completeness auto
termination
  by (relation "measure (\<lambda>(m, e, t). nat (t - e))") auto

declare iou_align.simps [simp del]

definition iou_add :: "bool \<Rightarrow> rounding_mode \<Rightarrow> IOUAmount \<Rightarrow> IOUAmount \<Rightarrow> fault + IOUAmount" where
  "iou_add sw mode a b =
     (if b = iou_zero then Inr a
      else if a = iou_zero then Inr b
      else if sw then
        rbind (iou_number mode a) (\<lambda>x. rbind (iou_number mode b) (\<lambda>y.
        rbind (num_add mode x y) iou_of_number))
      else
        let (ma, ea) = iou_align (iou_mantissa a) (iou_exponent a) (iou_exponent b);
            (mb, eb) = iou_align (iou_mantissa b) (iou_exponent b) ea;
            m = ma + mb
        in if - 10 \<le> m \<and> m \<le> 10 then Inr iou_zero else iou_normalize sw mode m ea)"

definition iou_sub :: "bool \<Rightarrow> rounding_mode \<Rightarrow> IOUAmount \<Rightarrow> IOUAmount \<Rightarrow> fault + IOUAmount" where
  "iou_sub sw mode a b = rbind (iou_negate sw mode b) (iou_add sw mode a)"

subsection \<open>\<open>mulRatio\<close>\<close>

definition powerTable :: "int list" where
  "powerTable = map (\<lambda>i. 10 ^ i) [0..<30]"

text \<open>\<open>std::lower_bound\<close>: the index of the first entry that is not below \<open>v\<close>.\<close>

definition log10Ceil :: "int \<Rightarrow> int" where
  "log10Ceil v = int (length (takeWhile (\<lambda>p. p < v) powerTable))"

text \<open>For \<open>v\<close> above every entry the code would read behind the table; no caller has such a value.\<close>

definition log10Floor :: "int \<Rightarrow> int" where
  "log10Floor v = (let i = log10Ceil v in if powerTable ! nat i \<noteq> v then i - 1 else i)"

definition fl64 :: int where "fl64 = log10Floor (2 ^ 63 - 1)"

text \<open>The scaled quotient: mantissa, exponent and whether something was cut off.\<close>

definition mul_ratio_grow :: "int \<Rightarrow> int \<Rightarrow> int \<Rightarrow> int \<Rightarrow> int \<times> int \<times> int" where
  "mul_ratio_grow low rem den ex =
     (if rem \<noteq> 0 then
        let roomToGrow = fl64 - log10Ceil low;
            (low, rem, ex) =
              (if roomToGrow > 0 then
                 (low * powerTable ! nat roomToGrow, rem * powerTable ! nat roomToGrow, ex - roomToGrow)
               else (low, rem, ex));
            addRem = rem div den
        in (low + addRem, rem - addRem * den, ex)
      else (low, rem, ex))"

definition mul_ratio_shrink :: "int \<Rightarrow> int \<Rightarrow> bool \<Rightarrow> int \<times> int \<times> bool" where
  "mul_ratio_shrink low ex hasRem =
     (let mustShrink = log10Ceil low - fl64 in
      if mustShrink > 0 then
        let sav = low; low = low div powerTable ! nat mustShrink
        in (low, ex + mustShrink, hasRem \<or> sav - low * powerTable ! nat mustShrink \<noteq> 0)
      else (low, ex, hasRem))"

definition mulRatio :: "bool \<Rightarrow> rounding_mode \<Rightarrow> IOUAmount \<Rightarrow> int \<Rightarrow> int \<Rightarrow> bool \<Rightarrow> fault + IOUAmount" where
  "mulRatio sw mode amt num den roundUp =
     (if den = 0 then Inl Runtime_error
      else
        let neg = iou_mantissa amt < 0;
            mul = \<bar>iou_mantissa amt\<bar> * num;
            low = mul div den; rem = mul - low * den;
            (low, rem, ex) = mul_ratio_grow low rem den (iou_exponent amt);
            (low, ex, hasRem) = mul_ratio_shrink low ex (rem \<noteq> 0);
            man = (if neg then s64 low * - 1 else s64 low)
        in rbind (iou_normalize sw mode man ex) (\<lambda>result.
           if hasRem \<and> roundUp \<and> \<not> neg then
             if iou_mantissa result = 0 then Inr minPositiveAmount
             else iou_normalize sw mode (iou_mantissa result + 1) (iou_exponent result)
           else if hasRem \<and> \<not> roundUp \<and> neg then
             if iou_mantissa result = 0 then iou_normalize sw mode (- minMantissa) iou_minExponent
             else iou_normalize sw mode (iou_mantissa result - 1) (iou_exponent result)
           else Inr result))"

subsection \<open>Normal amounts\<close>

definition iou_normal :: "IOUAmount \<Rightarrow> bool" where
  "iou_normal a \<longleftrightarrow> minMantissa \<le> \<bar>iou_mantissa a\<bar> \<and> \<bar>iou_mantissa a\<bar> \<le> maxMantissa \<and>
     iou_minExponent \<le> iou_exponent a \<and> iou_exponent a \<le> iou_maxExponent"

definition iou_ok :: "IOUAmount \<Rightarrow> bool" where
  "iou_ok a \<longleftrightarrow> a = iou_zero \<or> iou_normal a"

definition iou_value :: "IOUAmount \<Rightarrow> rat" where
  "iou_value a = of_int (iou_mantissa a) * 10 powi iou_exponent a"

lemmas mantissa_bounds = minMantissa_def maxMantissa_def
lemmas iou_bounds = iou_minExponent_def iou_maxExponent_def num_minExponent_def num_maxExponent_def

lemma rounds_away_new [simp]: "\<not> rounds_away mode new_Guard m" "\<not> rounds_away mode (set_negative new_Guard) m"
  by (cases mode; simp add: rounds_away_def guard_round_def new_Guard_def set_negative_def)+

lemma num_normalize_normal:
  assumes "minMantissa \<le> \<bar>m\<bar>" "\<bar>m\<bar> \<le> maxMantissa" "num_minExponent \<le> e" "e \<le> num_maxExponent"
  shows "num_normalize mode m e = Inr \<lparr>mantissa = m, exponent = e\<rparr>"
proof -
  have a: "(if m < 0 then u64 (- u64 m) else u64 m) = \<bar>m\<bar>"
    using assms(1,2) by (intro u64_abs) (auto simp: mantissa_bounds)
  have "scale_up \<bar>m\<bar> e = (\<bar>m\<bar>, e)" using assms(1) by (simp add: scale_up.simps)
  moreover have "scale_down \<bar>m\<bar> e g = Inr (\<bar>m\<bar>, e, g)" for g using assms(2) by (simp add: scale_down.simps)
  moreover have "m \<noteq> 0" using assms(1) by (auto simp: minMantissa_def)
  ultimately show ?thesis
    using assms by (simp add: num_normalize_def a round_up_def Let_def)
qed

lemma iou_number_normal: "iou_normal a \<Longrightarrow>
    iou_number mode a = Inr \<lparr>mantissa = iou_mantissa a, exponent = iou_exponent a\<rparr>"
  unfolding iou_number_def by (rule num_normalize_normal) (simp_all add: iou_normal_def iou_bounds)

lemma iou_number_zero: "iou_number mode iou_zero = Inr num_zero"
  by (simp add: iou_number_def iou_zero_def num_normalize_def)

lemma iou_normalize_normal:
  assumes "iou_normal a"
  shows "iou_normalize sw mode (iou_mantissa a) (iou_exponent a) = Inr a"
proof -
  have b: "minMantissa \<le> \<bar>iou_mantissa a\<bar>" "\<bar>iou_mantissa a\<bar> \<le> maxMantissa"
    "iou_minExponent \<le> iou_exponent a" "iou_exponent a \<le> iou_maxExponent" using assms by (simp_all add: iou_normal_def)
  have "iou_scale_up \<bar>iou_mantissa a\<bar> (iou_exponent a) = (\<bar>iou_mantissa a\<bar>, iou_exponent a)"
    using b(1) by (simp add: iou_scale_up.simps)
  moreover have "iou_scale_down \<bar>iou_mantissa a\<bar> (iou_exponent a) = Inr (\<bar>iou_mantissa a\<bar>, iou_exponent a)"
    using b(2) by (simp add: iou_scale_down.simps)
  moreover have "iou_mantissa a \<noteq> 0" "iou_mantissa a \<noteq> - (2 ^ 63)" using b(1,2) by (auto simp: mantissa_bounds)
  ultimately show ?thesis
    using b iou_number_normal [OF assms, of mode]
    by (auto simp: iou_normalize_def iou_number_def iou_of_number_def)
qed

lemma iou_of_number_ok: "isnormal z \<or> z = num_zero \<Longrightarrow> iou_of_number z = Inr a \<Longrightarrow> iou_ok a"
  by (auto simp: iou_of_number_def iou_ok_def iou_normal_def isnormal_def num_zero_def iou_bounds split: if_splits)

lemma iou_scale_up_range:
  "iou_scale_up m e = (m', e') \<Longrightarrow> 0 < m \<Longrightarrow> m < 2 ^ 63 \<Longrightarrow> 0 < m' \<and> m' < 2 ^ 63"
proof (induction m e rule: iou_scale_up.induct)
  case (1 m e)
  then show ?case
    by (cases "m < minMantissa \<and> e > iou_minExponent") (auto simp: iou_scale_up.simps [of m] minMantissa_def)
qed

lemma iou_scale_down_range:
  "iou_scale_down m e = Inr (m', e') \<Longrightarrow> 0 < m \<Longrightarrow> 0 < m' \<and> m' \<le> maxMantissa"
proof (induction m e rule: iou_scale_down.induct)
  case (1 m e)
  then show ?case
    by (cases "m > maxMantissa") (auto simp: iou_scale_down.simps [of m] maxMantissa_def split: if_splits)
qed

lemma iou_normalize_ok:
  assumes "- (2 ^ 63) \<le> man" "man < 2 ^ 63" "iou_normalize sw to_nearest man ex = Inr a"
  shows "iou_ok a"
proof (cases "sw \<or> man = 0")
  case True
  have "nearest_result (num_normalize to_nearest man ex) (of_int man * 10 powi ex)"
    using assms(1,2) by (rule num_normalize_nearest')
  with True assms(3) iou_of_number_ok show ?thesis
    by (auto simp: iou_normalize_def res_simps nearest_result_def iou_ok_def split: if_splits)
next
  case False
  obtain m e where su: "iou_scale_up \<bar>man\<bar> ex = (m, e)" by (metis surj_pair)
  with False assms(3) obtain m' e' where sd: "iou_scale_down m e = Inr (m', e')"
    and a: "a = iou_zero \<or> minMantissa \<le> m' \<and> iou_minExponent \<le> e' \<and> e' \<le> iou_maxExponent \<and>
      a = \<lparr>iou_mantissa = (if man < 0 then - m' else m'), iou_exponent = e'\<rparr>"
    by (auto simp: iou_normalize_def res_simps split: if_splits)
  have "man \<noteq> - (2 ^ 63)" using False assms(3) by (auto simp: iou_normalize_def)
  then have "0 < m" using iou_scale_up_range [OF su] False assms(1,2) by auto
  with iou_scale_down_range [OF sd] a show ?thesis by (auto simp: iou_ok_def iou_normal_def minMantissa_def)
qed

lemma iou_value_zero: "iou_value iou_zero = 0"
  unfolding iou_value_def iou_zero_def by (simp only: IOUAmount.simps of_int_0 mult_zero_left)

lemma num_value_zero: "num_value num_zero = 0"
  unfolding num_value_def num_zero_def by (simp only: Number.simps of_int_0 mult_zero_left)

lemma iou_number_ok:
  assumes "iou_ok a"
  obtains x where "iou_number mode a = Inr x" "isnormal x \<or> x = num_zero" "num_value x = iou_value a"
proof (cases "a = iou_zero")
  case True
  show ?thesis
    by (rule that [of num_zero]) (simp_all add: True iou_number_zero num_value_zero iou_value_zero)
next
  case False
  with assms have "iou_normal a" by (simp add: iou_ok_def)
  with iou_number_normal [OF this, of mode] show ?thesis
    by (intro that) (auto simp: isnormal_def iou_normal_def iou_bounds num_value_def iou_value_def)
qed

lemma iou_less_eq:
  assumes "iou_ok a" "iou_ok b"
  shows "iou_less mode a b = Inr (iou_value a < iou_value b)"
proof -
  obtain x where x: "iou_number mode a = Inr x" "isnormal x \<or> x = num_zero" "num_value x = iou_value a"
    using assms(1) by (rule iou_number_ok)
  obtain y where y: "iou_number mode b = Inr y" "isnormal y \<or> y = num_zero" "num_value y = iou_value b"
    using assms(2) by (rule iou_number_ok)
  show ?thesis using num_less_value [OF x(2) y(2)] x y by (simp add: iou_less_def res_simps)
qed

text \<open>
  C38. The comparison of two amounts, made through \<open>Number\<close>, orders them by their values.
\<close>

theorem iou_less_value:
  assumes "iou_ok a" "iou_ok b"
  shows "iou_less mode a b = Inr (iou_value a < iou_value b)"
  using assms by (rule iou_less_eq)

theorem iou_less_value_witness:
  "iou_less to_nearest iou_zero minPositiveAmount = Inr (iou_value iou_zero < iou_value minPositiveAmount)"
  by (rule iou_less_value) (simp_all add: iou_ok_def iou_normal_def minPositiveAmount_def mantissa_bounds iou_bounds)

subsection \<open>The invariant\<close>

lemma num_add_zero: "num_add mode x num_zero = Inr x" "num_add mode num_zero y = Inr y"
  unfolding num_add_def by (simp_all only: refl if_True split: if_split) simp

lemma num_add_ok:
  assumes "isnormal x \<or> x = num_zero" "isnormal y \<or> y = num_zero" "num_add to_nearest x y = Inr z"
  shows "isnormal z \<or> z = num_zero"
proof (cases "x = num_zero \<or> y = num_zero")
  case True
  with assms show ?thesis by (auto simp: num_add_zero)
next
  case False
  with assms(1,2) have "isnormal x" "isnormal y" by auto
  with num_add_same_sign_nearest' [of x y] num_add_opposite_sign' [of x y] assms(3) show ?thesis
    by (cases "sgn1 (mantissa x) = sgn1 (mantissa y)")
       (auto simp: nearest_result_def opposite_result_def split: if_splits)
qed

lemma iou_align_abs: "\<bar>fst (iou_align m e t)\<bar> \<le> \<bar>m\<bar>"
proof (induction m e t rule: iou_align.induct)
  case (1 m e t)
  have "\<bar>quot10 m\<bar> \<le> \<bar>m\<bar>" by (auto simp: quot10_def)
  with "1.IH" show ?case by (cases "e < t") (auto simp: iou_align.simps [of m])
qed

lemma iou_ok_mantissa: "iou_ok a \<Longrightarrow> \<bar>iou_mantissa a\<bar> \<le> maxMantissa"
  by (auto simp: iou_ok_def iou_normal_def iou_zero_def maxMantissa_def)

lemma iou_add_ok:
  assumes "iou_ok a" "iou_ok b" "iou_add sw to_nearest a b = Inr c"
  shows "iou_ok c"
proof (cases "a = iou_zero \<or> b = iou_zero \<or> sw")
  case True
  obtain x where x: "iou_number to_nearest a = Inr x" "isnormal x \<or> x = num_zero" using assms(1) by (rule iou_number_ok)
  obtain y where y: "iou_number to_nearest b = Inr y" "isnormal y \<or> y = num_zero" using assms(2) by (rule iou_number_ok)
  have s: "iou_ok c" if "num_add to_nearest x y = Inr z" "iou_of_number z = Inr c" for z
    using num_add_ok [OF x(2) y(2) that(1)] that(2) by (rule iou_of_number_ok)
  from True assms x(1) y(1) show ?thesis
    by (auto simp: iou_add_def res_simps iou_ok_def [of iou_zero] split: if_splits intro: s)
next
  case False
  obtain ma ea where a: "iou_align (iou_mantissa a) (iou_exponent a) (iou_exponent b) = (ma, ea)" by (metis surj_pair)
  obtain mb eb where b: "iou_align (iou_mantissa b) (iou_exponent b) ea = (mb, eb)" by (metis surj_pair)
  define m where "m = ma + mb"
  have "\<bar>ma\<bar> \<le> maxMantissa" "\<bar>mb\<bar> \<le> maxMantissa"
    using iou_align_abs [of "iou_mantissa a" "iou_exponent a" "iou_exponent b"]
      iou_align_abs [of "iou_mantissa b" "iou_exponent b" ea]
      iou_ok_mantissa [OF assms(1)] iou_ok_mantissa [OF assms(2)] by (simp_all add: a b)
  then have "- (2 ^ 63) \<le> m" "m < 2 ^ 63" by (auto simp: m_def maxMantissa_def)
  then have n: "iou_normalize sw to_nearest m e = Inr c \<Longrightarrow> iou_ok c" for e by (rule iou_normalize_ok)
  from False assms(3) show ?thesis
    by (auto simp: iou_add_def a b iou_ok_def [of iou_zero] Let_def simp flip: m_def split: if_splits intro: n)
qed

lemma powerTable_nth: "i < 30 \<Longrightarrow> powerTable ! i = 10 ^ i"
  unfolding powerTable_def by (simp del: upt_Suc upt_conv_Cons)

lemma log10Ceil_upper: "v \<le> 10 ^ 29 \<Longrightarrow> v \<le> 10 ^ nat (log10Ceil v) \<and> log10Ceil v \<le> 29 \<and> 0 \<le> log10Ceil v"
  for v :: int
proof -
  assume v: "v \<le> 10 ^ 29"
  let ?n = "length (takeWhile (\<lambda>p. p < v) powerTable)"
  have len: "length powerTable = 30" by (simp add: powerTable_def del: upt_Suc upt_conv_Cons)
  have n: "?n \<le> 29"
  proof (rule ccontr)
    assume "\<not> ?n \<le> 29"
    then have "29 < ?n" by simp
    then have "takeWhile (\<lambda>p. p < v) powerTable ! 29 < v" by (meson nth_mem set_takeWhileD)
    with \<open>29 < ?n\<close> v show False by (simp add: takeWhile_nth powerTable_nth)
  qed
  then have "\<not> powerTable ! ?n < v" using len by (intro nth_length_takeWhile) simp
  with n show ?thesis by (simp add: log10Ceil_def powerTable_nth not_less)
qed

lemma fl64_eq: "fl64 = 18"
  by code_simp

lemma mul_ratio_shrink_le:
  assumes "0 \<le> low" "low \<le> 10 ^ 29" "mul_ratio_shrink low ex r = (low', ex', r')"
  shows "0 \<le> low' \<and> low' \<le> 10 ^ 18"
proof (cases "log10Ceil low - fl64 > 0")
  case True
  let ?k = "nat (log10Ceil low - fl64)"
  have c: "low \<le> 10 ^ nat (log10Ceil low)" "log10Ceil low \<le> 29" using log10Ceil_upper [OF assms(2)] by auto
  have k: "nat (log10Ceil low) = 18 + ?k" "?k < 30" using True c(2) by (auto simp: fl64_eq)
  have "low div 10 ^ ?k \<le> 10 ^ (18 + ?k) div 10 ^ ?k" using c(1) unfolding k(1) by (rule zdiv_mono1) simp
  also have "\<dots> = (10 :: int) ^ 18" unfolding power_add by (rule nonzero_mult_div_cancel_right) simp
  finally show ?thesis
    using True assms(1,3) k(2)
    by (auto simp: mul_ratio_shrink_def Let_def powerTable_nth pos_imp_zdiv_nonneg_iff)
next
  case False
  have "low \<le> 10 ^ nat (log10Ceil low)" using log10Ceil_upper [OF assms(2)] by auto
  also have "\<dots> \<le> (10 :: int) ^ 18" using False by (intro power_increasing) (auto simp: fl64_eq)
  finally show ?thesis using False assms(1,3) by (auto simp: mul_ratio_shrink_def)
qed

lemma mul_ratio_grow_le:
  assumes "0 \<le> low" "low \<le> 10 ^ 28" "0 \<le> rem" "rem < den" "mul_ratio_grow low rem den ex = (low', rem', ex')"
  shows "0 \<le> low' \<and> low' \<le> 10 ^ 29"
proof (cases "rem \<noteq> 0 \<and> fl64 - log10Ceil low > 0")
  case True
  let ?k = "nat (fl64 - log10Ceil low)"
  have "0 \<le> log10Ceil low" and lo: "low \<le> 10 ^ nat (log10Ceil low)" using log10Ceil_upper [of low] assms(2) by auto
  then have k: "18 = nat (log10Ceil low) + ?k" "?k \<le> 18" using True by (auto simp: fl64_eq)
  have "low * 10 ^ ?k \<le> 10 ^ nat (log10Ceil low) * 10 ^ ?k"
    using lo by (intro mult_right_mono) auto
  also have "\<dots> = 10 ^ 18" unfolding k(1) power_add ..
  finally have l: "low * 10 ^ ?k \<le> 10 ^ 18" .
  have "rem * 10 ^ ?k div den \<le> 10 ^ ?k"
  proof -
    have "rem * 10 ^ ?k \<le> 10 ^ ?k * den" using assms(4) by (subst mult.commute) (intro mult_left_mono; simp)
    then have "rem * 10 ^ ?k div den \<le> 10 ^ ?k * den div den" using assms(3,4) by (intro zdiv_mono1) auto
    then show ?thesis using assms(3,4) by simp
  qed
  also have "\<dots> \<le> 10 ^ 18" using k(2) by (intro power_increasing) auto
  finally have r: "rem * 10 ^ ?k div den \<le> 10 ^ 18" .
  have "0 \<le> low * 10 ^ ?k" "0 \<le> rem * 10 ^ ?k div den" using assms by (auto simp: pos_imp_zdiv_nonneg_iff)
  moreover have "low' = low * 10 ^ ?k + rem * 10 ^ ?k div den"
    using True assms(5) k(2) by (auto simp: mul_ratio_grow_def Let_def powerTable_nth)
  ultimately show ?thesis using l r by simp
next
  case False
  moreover have "rem div den = 0" using assms(3,4) by simp
  ultimately show ?thesis using assms by (auto simp: mul_ratio_grow_def Let_def split: if_splits)
qed

lemma mulRatio_ok:
  assumes "iou_ok a" "0 \<le> num" "num < 2 ^ 32" "0 \<le> den" "mulRatio sw to_nearest a num den up = Inr c"
  shows "iou_ok c"
proof -
  let ?mul = "\<bar>iou_mantissa a\<bar> * num"
  have den: "0 < den" using assms(4,5) by (cases "den = 0") (auto simp: mulRatio_def)
  obtain low rem ex where g: "mul_ratio_grow (?mul div den) (?mul - ?mul div den * den) den (iou_exponent a) = (low, rem, ex)"
    by (metis prod_cases3)
  obtain low' ex' r where s: "mul_ratio_shrink low ex (rem \<noteq> 0) = (low', ex', r)" by (metis prod_cases3)
  let ?man = "if iou_mantissa a < 0 then s64 low' * - 1 else s64 low'"
  have "?mul \<le> maxMantissa * 2 ^ 32" using iou_ok_mantissa [OF assms(1)] assms(2,3) by (intro mult_mono) auto
  moreover have "?mul div den \<le> ?mul" using zdiv_mono2 [of ?mul 1 den] den assms(2) by simp
  ultimately have m: "?mul div den \<le> 10 ^ 28" by (simp add: maxMantissa_def)
  have m0: "0 \<le> ?mul div den" using den assms(2) by (simp add: pos_imp_zdiv_nonneg_iff)
  have "0 \<le> ?mul - ?mul div den * den" "?mul - ?mul div den * den < den"
    using den by (simp_all add: minus_div_mult_eq_mod)
  from mul_ratio_grow_le [OF m0 m this g] have "0 \<le> low" "low \<le> 10 ^ 29" by auto
  from mul_ratio_shrink_le [OF this s] have man: "- (2 ^ 63) \<le> ?man" "?man < 2 ^ 63" by auto
  obtain res where res: "iou_normalize sw to_nearest ?man ex' = Inr res"
    and c: "c = res \<or> c = minPositiveAmount \<or> iou_normalize sw to_nearest (- minMantissa) iou_minExponent = Inr c \<or>
      iou_normalize sw to_nearest (iou_mantissa res + 1) (iou_exponent res) = Inr c \<or>
      iou_normalize sw to_nearest (iou_mantissa res - 1) (iou_exponent res) = Inr c"
    using assms(5) den g s
    by (auto simp: mulRatio_def Let_def res_simps split: if_splits)
  have ok: "iou_ok res" using man res by (rule iou_normalize_ok)
  have n: "\<bar>m\<bar> \<le> maxMantissa + 1 \<Longrightarrow> iou_normalize sw to_nearest m e = Inr c \<Longrightarrow> iou_ok c" for m e
    by (rule iou_normalize_ok [of m sw e]) (auto simp: maxMantissa_def)
  have "\<bar>iou_mantissa res + 1\<bar> \<le> maxMantissa + 1" "\<bar>iou_mantissa res - 1\<bar> \<le> maxMantissa + 1"
    using iou_ok_mantissa [OF ok] by linarith+
  moreover have "iou_ok minPositiveAmount"
    by (simp add: iou_ok_def iou_normal_def minPositiveAmount_def mantissa_bounds iou_bounds)
  moreover have "\<bar>- minMantissa\<bar> \<le> maxMantissa + 1" by (simp add: mantissa_bounds)
  ultimately show ?thesis using c ok n by blast
qed

definition iou_result :: "fault + IOUAmount \<Rightarrow> bool" where
  "iou_result r = (case r of Inl _ \<Rightarrow> True | Inr c \<Rightarrow> iou_ok c)"

lemma iou_resultI: "(\<And>c. r = Inr c \<Longrightarrow> iou_ok c) \<Longrightarrow> iou_result r"
  by (simp add: iou_result_def split: sum.split)

text \<open>
  C32. The type invariant of \<open>IOUAmount\<close>: construction from any 64-bit mantissa, addition and \<open>mulRatio\<close>
  give zero in its one representation or a mantissa of sixteen digits with an exponent from -96 to 80, with
  and without \<open>Number\<close>, so that what leaves the range is an exception or zero and never a malformed amount.
\<close>

theorem iou_invariant:
  assumes "iou_ok a" "iou_ok b" "- (2 ^ 63) \<le> man" "man < 2 ^ 63" "0 \<le> num" "num < 2 ^ 32" "0 \<le> den"
  shows "iou_result (iou_normalize sw to_nearest man ex) \<and> iou_result (iou_add sw to_nearest a b) \<and>
    iou_result (mulRatio sw to_nearest a num den up)"
  using iou_normalize_ok [OF assms(3,4)] iou_add_ok [OF assms(1,2)] mulRatio_ok [OF assms(1,5-7)]
  by (blast intro: iou_resultI)

theorem iou_invariant_witness:
  "iou_result (iou_normalize True to_nearest 12345678901234567 3) \<and>
   iou_result (iou_add True to_nearest minPositiveAmount minPositiveAmount) \<and>
   iou_result (mulRatio True to_nearest minPositiveAmount 2 3 True)"
  by (rule iou_invariant) (simp_all add: iou_ok_def iou_normal_def minPositiveAmount_def mantissa_bounds iou_bounds)

subsection \<open>The sum\<close>

text \<open>
  Where the exact value \<open>v\<close> is representable the result is within half a unit of the last place, or within
  five where the subtraction of \<open>Number\<close> stopped a digit early.
\<close>

definition iou_near :: "fault + IOUAmount \<Rightarrow> rat \<Rightarrow> bool" where
  "iou_near res v = (case res of
     Inl f \<Rightarrow> f = Overflow_error \<and> 9999999999999990 * 10 powi iou_maxExponent < \<bar>v\<bar>
   | Inr c \<Rightarrow> if c = iou_zero then \<bar>v\<bar> < 10 powi (iou_minExponent + 15)
              else iou_normal c \<and> \<bar>iou_value c - v\<bar> \<le>
                (if \<bar>iou_mantissa c\<bar> = 9999999999999990 then 5 else 1 / 2) * 10 powi iou_exponent c)"

lemma num_add_near:
  assumes "isnormal x" "isnormal y"
  shows "case num_add to_nearest x y of
     Inl f \<Rightarrow> f = Overflow_error \<and> 9999999999999999 * 10 powi num_maxExponent < \<bar>num_value x + num_value y\<bar>
   | Inr z \<Rightarrow> if z = num_zero then \<bar>num_value x + num_value y\<bar> < 10 powi (num_minExponent + 15)
              else isnormal z \<and> \<bar>num_value z - (num_value x + num_value y)\<bar> \<le>
                (if \<bar>mantissa z\<bar> = 9999999999999990 then 5 else 1 / 2) * 10 powi exponent z"
proof (cases "sgn1 (mantissa x) = sgn1 (mantissa y)")
  case True
  have "d \<le> 5 * 10 powi e" if "d * 2 \<le> 10 powi e" for d :: rat and e
  proof -
    have "(0 :: rat) < 10 powi e" by simp
    with that show ?thesis by linarith
  qed
  with num_add_same_sign_nearest' [OF assms True] show ?thesis
    by (auto simp: nearest_result_def split: sum.splits if_split_asm)
next
  case False
  from num_add_opposite_sign' [OF assms False] show ?thesis
    by (cases "num_add to_nearest x y") (simp_all add: opposite_result_def)
qed

lemma near_bounds:
  fixes v :: rat
  assumes "isnormal z" "\<bar>num_value z - v\<bar> \<le> (if \<bar>mantissa z\<bar> = 9999999999999990 then 5 else 1 / 2) * 10 powi exponent z"
  shows "999999999999999 * 10 powi exponent z < \<bar>v\<bar>" "\<bar>v\<bar> < 10000000000000000 * 10 powi exponent z"
proof -
  let ?p = "(10 :: rat) powi exponent z" and ?m = "of_int \<bar>mantissa z\<bar> :: rat"
  let ?d = "if \<bar>mantissa z\<bar> = 9999999999999990 then 5 else 1 / 2 :: rat"
  have p: "0 < ?p" by simp
  have "\<bar>num_value z\<bar> = ?m * ?p" by (simp add: num_value_def abs_mult)
  then have v: "(?m - ?d) * ?p \<le> \<bar>v\<bar>" "\<bar>v\<bar> \<le> (?m + ?d) * ?p" using assms(2) by (auto simp: algebra_simps)
  have m: "1000000000000000 \<le> ?m" "?m \<le> 9999999999999999"
    using assms(1) unfolding isnormal_def mantissa_bounds by linarith+
  have "?m = 9999999999999990" if "\<bar>mantissa z\<bar> = 9999999999999990" using that by (metis of_int_numeral)
  then have "999999999999999 < ?m - ?d" "?m + ?d < 10000000000000000" using m by auto
  then have "999999999999999 * ?p < (?m - ?d) * ?p" "(?m + ?d) * ?p < 10000000000000000 * ?p"
    using p by (simp_all only: mult_less_cancel_right_pos)
  with v show "999999999999999 * ?p < \<bar>v\<bar>" "\<bar>v\<bar> < 10000000000000000 * ?p" by linarith+
qed

lemma iou_of_number_near:
  assumes "z = num_zero \<and> \<bar>v\<bar> < 10 powi (num_minExponent + 15) \<or>
    z \<noteq> num_zero \<and> isnormal z \<and>
      \<bar>num_value z - v\<bar> \<le> (if \<bar>mantissa z\<bar> = 9999999999999990 then 5 else 1 / 2) * 10 powi exponent z"
  shows "iou_near (iou_of_number z) v"
proof (cases "z = num_zero")
  case True
  have "(10 :: rat) powi (num_minExponent + 15) \<le> 10 powi (iou_minExponent + 15)"
    by (rule powi10_mono) (simp add: iou_bounds)
  moreover have "iou_of_number num_zero = Inr iou_zero" by (simp add: iou_of_number_def iou_bounds num_zero_def)
  ultimately show ?thesis using True assms by (auto simp: iou_near_def)
next
  case False
  with assms have n: "isnormal z" "\<bar>num_value z - v\<bar> \<le>
    (if \<bar>mantissa z\<bar> = 9999999999999990 then 5 else 1 / 2) * 10 powi exponent z" by auto
  consider "exponent z > iou_maxExponent" | "exponent z < iou_minExponent"
    | "iou_minExponent \<le> exponent z" "exponent z \<le> iou_maxExponent" by linarith
  then show ?thesis
  proof cases
    case 1
    then have "(10 :: rat) powi (iou_maxExponent + 1) \<le> 10 powi exponent z" by (intro powi10_mono) simp
    then have "9999999999999990 * 10 powi iou_maxExponent \<le> 999999999999999 * (10 :: rat) powi exponent z"
      by (simp add: power_int_add)
    with near_bounds(1) [OF n] 1 show ?thesis by (simp add: iou_near_def iou_of_number_def)
  next
    case 2
    then have "(10 :: rat) powi exponent z \<le> 10 powi (iou_minExponent - 1)" by (intro powi10_mono) simp
    then have "10000000000000000 * (10 :: rat) powi exponent z \<le> 10 powi (iou_minExponent + 15)"
      by (simp add: power_int_add power_int_diff)
    with near_bounds(2) [OF n] 2 show ?thesis by (simp add: iou_near_def iou_of_number_def iou_bounds)
  next
    case 3
    moreover have "\<lparr>iou_mantissa = mantissa z, iou_exponent = exponent z\<rparr> \<noteq> iou_zero"
      using n(1) by (auto simp: iou_zero_def isnormal_def mantissa_bounds)
    moreover have "iou_normal \<lparr>iou_mantissa = mantissa z, iou_exponent = exponent z\<rparr>"
      using n(1) 3 by (auto simp: iou_normal_def isnormal_def)
    ultimately show ?thesis
      using n(2) by (simp add: iou_near_def iou_of_number_def iou_value_def num_value_def)
  qed
qed

lemma iou_add_near:
  assumes "iou_ok a" "iou_ok b"
  shows "iou_near (iou_add True to_nearest a b) (iou_value a + iou_value b)"
proof (cases "a = iou_zero \<or> b = iou_zero")
  case True
  then show ?thesis
    using assms by (auto simp: iou_add_def iou_value_zero iou_near_def iou_ok_def)
next
  case False
  with assms have n: "iou_normal a" "iou_normal b" by (auto simp: iou_ok_def)
  let ?x = "\<lparr>mantissa = iou_mantissa a, exponent = iou_exponent a\<rparr>"
  let ?y = "\<lparr>mantissa = iou_mantissa b, exponent = iou_exponent b\<rparr>"
  have "isnormal ?x" "isnormal ?y" using n by (auto simp: isnormal_def iou_normal_def iou_bounds)
  moreover have v: "num_value ?x = iou_value a" "num_value ?y = iou_value b"
    by (simp_all add: num_value_def iou_value_def)
  ultimately have near: "case num_add to_nearest ?x ?y of
     Inl f \<Rightarrow> f = Overflow_error \<and> 9999999999999999 * 10 powi num_maxExponent < \<bar>iou_value a + iou_value b\<bar>
   | Inr z \<Rightarrow> if z = num_zero then \<bar>iou_value a + iou_value b\<bar> < 10 powi (num_minExponent + 15)
              else isnormal z \<and> \<bar>num_value z - (iou_value a + iou_value b)\<bar> \<le>
                (if \<bar>mantissa z\<bar> = 9999999999999990 then 5 else 1 / 2) * 10 powi exponent z"
    using num_add_near [of ?x ?y] by (simp only: v)
  have add: "iou_add True to_nearest a b = rbind (num_add to_nearest ?x ?y) iou_of_number"
    using False by (simp add: iou_add_def iou_number_normal n res_simps)
  show ?thesis
  proof (cases "num_add to_nearest ?x ?y")
    case (Inl f)
    have "(10 :: rat) powi iou_maxExponent \<le> 10 powi num_maxExponent" by (rule powi10_mono) (simp add: iou_bounds)
    then have "9999999999999990 * (10 :: rat) powi iou_maxExponent \<le> 9999999999999999 * 10 powi num_maxExponent"
      by (intro mult_mono) auto
    with near Inl show ?thesis by (simp add: add iou_near_def res_simps)
  next
    case (Inr z)
    with near have "iou_near (iou_of_number z) (iou_value a + iou_value b)"
      by (intro iou_of_number_near) (simp split: if_splits)
    with Inr show ?thesis by (simp add: add res_simps)
  qed
qed

lemma mulRatio_down_above:
  "mulRatio True to_nearest \<lparr>iou_mantissa = 1000000000000000, iou_exponent = 0\<rparr> 2 3 False =
     Inr \<lparr>iou_mantissa = 6666666666666667, iou_exponent = - 1\<rparr>"
  by code_simp

lemma mulRatio_up_below:
  "mulRatio False to_nearest \<lparr>iou_mantissa = 9999999999999999, iou_exponent = 0\<rparr> 7 1 True =
     Inr \<lparr>iou_mantissa = 6999999999999999, iou_exponent = 1\<rparr>"
  by code_simp

end
