(* ===== verification/Hook_Memory.thy ===== *)
theory Hook_Memory
  imports Hook_Enum "HOL-Library.AList"
begin

text \<open>
  What every hook API function does with the linear memory of the hook and with the record of its result:
  the macros of \<^verbatim>\<open>src/src/ripple/app/hook/Macro.h\<close> and the small helpers at the head of
  \<^verbatim>\<open>src/src/ripple/app/hook/impl/applyHook.cpp\<close>. The memory is a list of bytes. Stores of the host
  through its pointer are \<open>mem_store\<close>, undefined outside of the memory; the stores made through
  \<open>WasmEdge_MemoryInstanceSetData\<close> are the argument \<open>sd\<close>, of which the theorems assume \<open>copies sd\<close>: a
  block that lies within the memory is copied.
\<close>

subsection \<open>Linear memory\<close>

type_synonym set_data = "blob \<Rightarrow> int \<Rightarrow> blob \<Rightarrow> blob option"

definition mem_put :: "blob \<Rightarrow> nat \<Rightarrow> blob \<Rightarrow> blob" where
  "mem_put mem p d = take p mem @ d @ drop (p + length d) mem"

definition mem_read :: "blob \<Rightarrow> int \<Rightarrow> int \<Rightarrow> blob" where
  "mem_read mem ptr len = take (nat len) (drop (nat ptr) mem)"

definition mem_store :: "blob \<Rightarrow> int \<Rightarrow> blob \<Rightarrow> fault + blob" where
  "mem_store mem p d = (if 0 \<le> p \<and> nat p + length d \<le> length mem then Inr (mem_put mem (nat p) d) else Inl Undefined)"

definition put_data :: set_data where
  "put_data mem p d = (if 0 \<le> p \<and> nat p + length d \<le> length mem then Some (mem_put mem (nat p) d) else None)"

definition copies :: "set_data \<Rightarrow> bool" where
  "copies sd \<longleftrightarrow> (\<forall>mem p d. nat p + length d \<le> length mem \<longrightarrow> 0 \<le> p \<longrightarrow> sd mem p d = Some (mem_put mem (nat p) d))"

definition NOT_IN_BOUNDS :: "int \<Rightarrow> int \<Rightarrow> blob \<Rightarrow> bool" where
  "NOT_IN_BOUNDS ptr len mem \<longleftrightarrow> ptr \<ge> int (length mem) \<or> ptr + len > int (length mem)"

text \<open>
  \<open>Inl\<close> is an early return of the enclosing function; \<open>Inr\<close> the number of bytes written so far and the
  memory.
\<close>

definition WRITE_WASM_MEMORY :: "set_data \<Rightarrow> int \<Rightarrow> int \<Rightarrow> int \<Rightarrow> blob \<Rightarrow> blob \<Rightarrow> int + (int \<times> blob)" where
  "WRITE_WASM_MEMORY sd bytes_written dst_ptr dst_len src mem =
     (let bytes_to_write = min (int (length src)) dst_len in
      if dst_ptr + bytes_to_write > int (length mem) then Inl OUT_OF_BOUNDS
      else case sd mem dst_ptr (take (nat bytes_to_write) src) of
             None \<Rightarrow> Inl INTERNAL_ERROR
           | Some mem' \<Rightarrow> Inr (bytes_written + bytes_to_write, mem'))"

text \<open>A whole function returns its code and the memory it leaves.\<close>

definition WRITE_WASM_MEMORY_AND_RETURN :: "set_data \<Rightarrow> int \<Rightarrow> int \<Rightarrow> blob \<Rightarrow> blob \<Rightarrow> int \<times> blob" where
  "WRITE_WASM_MEMORY_AND_RETURN sd dst_ptr dst_len src mem =
     (case WRITE_WASM_MEMORY sd 0 dst_ptr dst_len src mem of Inl code \<Rightarrow> (code, mem) | Inr r \<Rightarrow> r)"

text \<open>The sum \<open>(uint64_t)ptr[i] << j\<close> over the bytes, the first one the most significant.\<close>

fun be_sum :: "blob \<Rightarrow> int" where
  "be_sum [] = 0"
| "be_sum (b # bs) = uint b * 2 ^ (8 * length bs) + be_sum bs"

definition data_as_int64 :: "blob \<Rightarrow> int" where
  "data_as_int64 bs =
     (if length bs > 8 then TOO_BIG
      else let out = be_sum bs in if out \<ge> 2 ^ 63 then TOO_BIG else out)"

definition WRITE_WASM_MEMORY_OR_RETURN_AS_INT64 ::
    "set_data \<Rightarrow> int \<Rightarrow> int \<Rightarrow> blob \<Rightarrow> bool \<Rightarrow> blob \<Rightarrow> int \<times> blob" where
  "WRITE_WASM_MEMORY_OR_RETURN_AS_INT64 sd write_ptr write_len bs is_account mem =
     (let data_len = (if is_account then int (length bs) - 1 else int (length bs));
          bytes = (if is_account then drop 1 bs else bs)
      in if data_len < 0 then (INTERNAL_ERROR, mem)
         else if data_len = 0 then (0, mem)
         else if write_ptr = 0 then (data_as_int64 bytes, mem)
         else if data_len > write_len then (TOO_SMALL, mem)
         else WRITE_WASM_MEMORY_AND_RETURN sd write_ptr write_len bytes mem)"

subsection \<open>Ending a hook\<close>

text \<open>The part of \<open>HookResult\<close> and \<open>HookContext\<close> that \<open>accept\<close>, \<open>rollback\<close> and \<open>_g\<close> change.\<close>

record exit_state =
  exitType :: ExitType
  exitCode :: int
  exitReason :: blob
  guard_map :: "(int \<times> int) list"

definition new_exit_state :: exit_state where
  "new_exit_state = \<lparr>exitType = ROLLBACK, exitCode = - 1, exitReason = [], guard_map = []\<rparr>"

fun utf16_pairs :: "blob \<Rightarrow> bool" where
  "utf16_pairs (a # b # bs) = (if a = 0 \<or> b \<noteq> 0 then False else utf16_pairs bs)"
| "utf16_pairs _ = True"

definition is_UTF16LE :: "blob \<Rightarrow> bool" where
  "is_UTF16LE bs = (if length bs mod 2 \<noteq> 0 \<or> length bs = 0 then False else utf16_pairs bs)"

fun evens :: "blob \<Rightarrow> blob" where
  "evens (a # b # bs) = a # evens bs"
| "evens _ = []"

definition HOOK_EXIT :: "blob \<Rightarrow> int \<Rightarrow> int \<Rightarrow> int \<Rightarrow> ExitType \<Rightarrow> exit_state \<Rightarrow> int \<times> exit_state" where
  "HOOK_EXIT mem read_ptr read_len error_code exit_type st =
     (let read_len = (if read_len > 256 then 256 else read_len);
          leave = (\<lambda>st. (if exit_type = ACCEPT then RC_ACCEPT else RC_ROLLBACK,
                        st\<lparr>exitType := exit_type, exitCode := error_code\<rparr>))
      in if read_ptr \<noteq> 0 then
           if NOT_IN_BOUNDS read_ptr read_len mem then (OUT_OF_BOUNDS, st)
           else let bs = mem_read mem read_ptr read_len in
             leave (st\<lparr>exitReason := (if is_UTF16LE bs then evens bs else bs)\<rparr>)
         else leave st)"

definition accept :: "blob \<Rightarrow> int \<Rightarrow> int \<Rightarrow> int \<Rightarrow> exit_state \<Rightarrow> int \<times> exit_state" where
  "accept mem read_ptr read_len error_code st = HOOK_EXIT mem read_ptr read_len error_code ACCEPT st"

definition rollback :: "blob \<Rightarrow> int \<Rightarrow> int \<Rightarrow> int \<Rightarrow> exit_state \<Rightarrow> int \<times> exit_state" where
  "rollback mem read_ptr read_len error_code st = HOOK_EXIT mem read_ptr read_len error_code ROLLBACK st"

text \<open>\<open>_g\<close>: the guard call at the head of every loop.\<close>

definition guard_g :: "int \<Rightarrow> int \<Rightarrow> exit_state \<Rightarrow> int \<times> exit_state" where
  "guard_g gid maxitr st =
     (let n = (case map_of (guard_map st) gid of None \<Rightarrow> 1 | Some k \<Rightarrow> u32 (k + 1));
          st = st\<lparr>guard_map := AList.update gid n (guard_map st)\<rparr>
      in if n > maxitr then (RC_ROLLBACK, st\<lparr>exitType := ROLLBACK, exitCode := GUARD_VIOLATION\<rparr>)
         else (1, st))"

text \<open>The wrapper of \<open>DEFINE_HOOK_FUNCTION\<close>: does the call end the hook?\<close>

definition terminates_hook :: "int \<Rightarrow> bool" where
  "terminates_hook return_code \<longleftrightarrow> return_code = RC_ROLLBACK \<or> return_code = RC_ACCEPT"

subsection \<open>Currencies and keylets\<close>

definition validateChar :: "byte \<Rightarrow> bool" where
  "validateChar b =
     (let c = uint b in
      of_char CHR ''a'' \<le> c \<and> c \<le> of_char CHR ''z'' \<or> of_char CHR ''A'' \<le> c \<and> c \<le> of_char CHR ''Z'' \<or>
      of_char CHR ''0'' \<le> c \<and> c \<le> of_char CHR ''9'' \<or> c \<in> of_char ` set ''?!@#$%^&*<>(){}[]|'')"

definition parseCurrency :: "blob \<Rightarrow> blob option" where
  "parseCurrency cu =
     (if length cu = 20 then Some cu
      else if length cu = 3 then
        if \<not> validateChar (cu ! 0) \<or> \<not> validateChar (cu ! 1) \<or> \<not> validateChar (cu ! 2) then None
        else Some (replicate 12 0 @ [cu ! 0, cu ! 1, cu ! 2] @ replicate 5 0)
      else None)"

record Keylet =
  kl_type :: int
  kl_key :: blob

definition serialize_keylet :: "Keylet \<Rightarrow> blob \<Rightarrow> int \<Rightarrow> int \<Rightarrow> fault + (int \<times> blob)" where
  "serialize_keylet kl mem write_ptr write_len =
     (if write_len < 34 then Inr (TOO_SMALL, mem)
      else rbind (mem_store mem write_ptr
             (word_of_int (kl_type kl div 256) # word_of_int (kl_type kl) # kl_key kl)) (\<lambda>mem. Inr (34, mem)))"

definition unserialize_keylet :: "blob \<Rightarrow> Keylet option" where
  "unserialize_keylet bs =
     (if length bs \<noteq> 34 then None
      else Some \<lparr>kl_type = u16 (uint (bs ! 0) * 256 + uint (bs ! 1)), kl_key = drop 2 bs\<rparr>)"

subsection \<open>Fees, namespaces and \<open>HookOn\<close>\<close>

definition computeHookStateOwnerCount :: "int \<Rightarrow> int" where
  "computeHookStateOwnerCount hookStateCount = hookStateCount"

text \<open>The comparisons of a signed with an unsigned 64-bit integer are unsigned.\<close>

definition computeExecutionFee :: "int \<Rightarrow> int" where
  "computeExecutionFee instructionCount =
     (let fee = s64 instructionCount in if u64 fee < instructionCount then 2 ^ 63 - 1 else fee)"

definition computeCreationFee :: "int \<Rightarrow> int" where
  "computeCreationFee byteCount =
     (let fee = s64 (u64 (u64 (s64 byteCount) * 500)) in if u64 fee < byteCount then 2 ^ 63 - 1 else fee)"

text \<open>A \<open>uint256\<close> is a 256-bit word; entry \<open>i\<close> of the table \<open>UINT256_BIT\<close> has bit \<open>i\<close> set.\<close>

type_synonym uint256 = "256 word"

definition UINT256_BIT :: "nat \<Rightarrow> uint256" where
  "UINT256_BIT i = push_bit i 1"

definition ttHOOK_SET :: nat where "ttHOOK_SET = 22"

definition canHook :: "nat \<Rightarrow> uint256 \<Rightarrow> bool" where
  "canHook txType hookOn =
     (let hookOn = hookOn XOR UINT256_BIT ttHOOK_SET; hookOn = NOT hookOn
      in hookOn AND UINT256_BIT txType \<noteq> 0)"

definition canEmit :: "nat \<Rightarrow> uint256 \<Rightarrow> bool" where
  "canEmit txType hookCanEmit = canHook txType hookCanEmit"

text \<open>The optional fields \<open>sfHookCanEmit\<close> of the hook object and of the hook definition.\<close>

definition getHookCanEmit :: "uint256 option \<Rightarrow> uint256 option \<Rightarrow> uint256" where
  "getHookCanEmit hookObj hookDef =
     (case hookObj of Some x \<Rightarrow> x | None \<Rightarrow> (case hookDef of Some x \<Rightarrow> x | None \<Rightarrow> UINT256_BIT ttHOOK_SET))"

text \<open>
  The field \<open>sfHookNamespaces\<close> of an account, absent or a vector, over any ordered type of namespaces; the
  result says whether the account was modified.
\<close>

definition addHookNamespaceEntry :: "'a list option \<Rightarrow> 'a \<Rightarrow> bool \<times> 'a list option" where
  "addHookNamespaceEntry field ns =
     (let vec = (case field of None \<Rightarrow> [] | Some v \<Rightarrow> v) in
      if ns \<in> set vec then (False, field) else (True, Some (vec @ [ns])))"

definition removeHookNamespaceEntry :: "'a :: linorder list option \<Rightarrow> 'a \<Rightarrow> bool \<times> 'a list option" where
  "removeHookNamespaceEntry field ns =
     (case field of
        None \<Rightarrow> (False, None)
      | Some vec \<Rightarrow>
          if vec = [] then (True, None)
          else let spaces = sorted_list_of_set (set (filter (\<lambda>u. u \<noteq> ns) vec)) in
            if length spaces \<noteq> length vec then (True, if spaces = [] then None else Some spaces)
            else (False, field))"

subsection \<open>Memory\<close>

lemma copies_put_data: "copies put_data"
  by (simp add: copies_def put_data_def)

lemma length_mem_put [simp]: "p + length d \<le> length mem \<Longrightarrow> length (mem_put mem p d) = length mem"
  by (simp add: mem_put_def)

lemma mem_put_nth:
  assumes "p + length d \<le> length mem" "i < length mem"
  shows "mem_put mem p d ! i = (if p \<le> i \<and> i < p + length d then d ! (i - p) else mem ! i)"
  using assms by (auto simp: mem_put_def nth_append)

lemma mem_read_put: "p + length d \<le> length mem \<Longrightarrow> mem_read (mem_put mem p d) (int p) (int (length d)) = d"
  by (simp add: mem_read_def mem_put_def)

lemma mem_put_append:
  assumes "p + length d + length d' \<le> length mem"
  shows "mem_put (mem_put mem p d) (p + length d) d' = mem_put mem p (d @ d')"
proof -
  have "take (p + length d) (mem_put mem p d) = take p mem @ d" using assms by (simp add: mem_put_def)
  moreover have "drop (p + length d + length d') (mem_put mem p d) = drop (p + length d + length d') mem"
    using assms by (simp add: mem_put_def ac_simps)
  ultimately show ?thesis by (simp add: mem_put_def [of "mem_put mem p d"] mem_put_def [of mem p "d @ d'"] add.assoc)
qed

lemma write_wasm_ok:
  assumes "copies sd" "0 \<le> p" "int (length src) \<le> len" "p + int (length src) \<le> int (length mem)"
  shows "WRITE_WASM_MEMORY sd n p len src mem = Inr (n + int (length src), mem_put mem (nat p) src)"
proof -
  have "sd mem p src = Some (mem_put mem (nat p) src)"
    using assms unfolding copies_def by (metis le_nat_iff nat_int_add of_nat_add of_nat_le_iff int_nat_eq)
  with assms show ?thesis by (simp add: WRITE_WASM_MEMORY_def Let_def)
qed

text \<open>
  Whatever a store through \<open>WRITE_WASM_MEMORY\<close> does, it changes no byte outside of the block the hook passed
  and keeps the size of the memory.
\<close>

definition within :: "int \<Rightarrow> int \<Rightarrow> blob \<Rightarrow> blob \<Rightarrow> bool" where
  "within p len mem mem' \<longleftrightarrow> length mem' = length mem \<and>
     (\<forall>i < length mem. int i < p \<or> p + len \<le> int i \<longrightarrow> mem' ! i = mem ! i)"

lemma within_refl: "within p len mem mem"
  by (simp add: within_def)

lemma within_put:
  "0 \<le> p \<Longrightarrow> int (length d) \<le> len \<Longrightarrow> nat p + length d \<le> length mem \<Longrightarrow> within p len mem (mem_put mem (nat p) d)"
  by (auto simp: within_def mem_put_nth)

lemma WRITE_WASM_MEMORY_within:
  assumes "copies sd" "0 \<le> p" "0 \<le> len" "WRITE_WASM_MEMORY sd n p len src mem = Inr (n', mem')"
  shows "within p len mem mem' \<and> n' = n + min (int (length src)) len"
proof -
  let ?k = "min (int (length src)) len"
  have le: "p + ?k \<le> int (length mem)"
    using assms(4) by (auto simp: WRITE_WASM_MEMORY_def Let_def not_less split: if_splits)
  have len: "length (take (nat ?k) src) = nat ?k" by simp
  have "nat p + nat ?k \<le> length mem" using le assms(2,3) by linarith
  then have "sd mem p (take (nat ?k) src) = Some (mem_put mem (nat p) (take (nat ?k) src))"
    using assms(1,2) len unfolding copies_def by simp
  with assms(4) le have "mem' = mem_put mem (nat p) (take (nat ?k) src)" "n' = n + ?k"
    by (auto simp: WRITE_WASM_MEMORY_def Let_def split: if_splits)
  moreover have "within p len mem (mem_put mem (nat p) (take (nat ?k) src))"
    using \<open>nat p + nat ?k \<le> length mem\<close> assms(2,3) by (intro within_put) auto
  ultimately show ?thesis by simp
qed

subsection \<open>The guard counter\<close>

text \<open>A hook that makes the given guard calls; it ends at the first one that asks for it.\<close>

fun run_guards :: "(int \<times> int) list \<Rightarrow> exit_state \<Rightarrow> exit_state + exit_state" where
  "run_guards [] st = Inr st"
| "run_guards ((gid, maxitr) # cs) st =
     (let (r, st) = guard_g gid maxitr st in if terminates_hook r then Inl st else run_guards cs st)"

definition guard_inv :: "exit_state \<Rightarrow> (int \<Rightarrow> nat) \<Rightarrow> bool" where
  "guard_inv st n \<longleftrightarrow> (\<forall>gid. map_of (guard_map st) gid = (if n gid = 0 then None else Some (int (n gid))))"

definition calls_upto :: "(int \<times> int) list \<Rightarrow> nat \<Rightarrow> nat" where
  "calls_upto calls i = count_list (map fst (take (Suc i) calls)) (fst (calls ! i))"

definition guards_ok :: "(int \<Rightarrow> nat) \<Rightarrow> (int \<times> int) list \<Rightarrow> bool" where
  "guards_ok n calls \<longleftrightarrow> (\<forall>i < length calls.
     int (n (fst (calls ! i)) + calls_upto calls i) \<le> snd (calls ! i))"

lemma guards_ok_Cons:
  "guards_ok n ((gid, m) # cs) \<longleftrightarrow> int (n gid) + 1 \<le> m \<and> guards_ok (n(gid := n gid + 1)) cs"
proof -
  let ?c = "(gid, m) # cs"
  let ?P = "\<lambda>i. int (n (fst (?c ! i)) + calls_upto ?c i) \<le> snd (?c ! i)"
  have "guards_ok n ?c \<longleftrightarrow> ?P 0 \<and> (\<forall>i < length cs. ?P (Suc i))"
    unfolding guards_ok_def by (simp add: All_less_Suc2)
  moreover have "?P 0 \<longleftrightarrow> int (n gid) + 1 \<le> m" by (auto simp: calls_upto_def)
  moreover have "?P (Suc i) \<longleftrightarrow> int ((n(gid := n gid + 1)) (fst (cs ! i)) + calls_upto cs i) \<le> snd (cs ! i)" for i
    by (auto simp: calls_upto_def)
  ultimately show ?thesis by (simp only: guards_ok_def)
qed

lemma guard_g_step:
  assumes "guard_inv st n" "int (n gid) + 1 < 2 ^ 32"
  shows "guard_g gid m st =
    (let st' = st\<lparr>guard_map := AList.update gid (int (n gid) + 1) (guard_map st)\<rparr> in
     if int (n gid) + 1 \<le> m then (1, st') else (RC_ROLLBACK, st'\<lparr>exitType := ROLLBACK, exitCode := GUARD_VIOLATION\<rparr>))"
  and "guard_inv (st\<lparr>guard_map := AList.update gid (int (n gid) + 1) (guard_map st)\<rparr>) (n(gid := n gid + 1))"
  using assms by (auto simp: guard_g_def Let_def guard_inv_def update_conv')

lemma run_guards_result:
  "guard_inv st n \<Longrightarrow> (\<And>gid. int (n gid) + int (length calls) < 2 ^ 32) \<Longrightarrow>
   case run_guards calls st of
     Inl st' \<Rightarrow> exitType st' = ROLLBACK \<and> exitCode st' = GUARD_VIOLATION \<and> \<not> guards_ok n calls
   | Inr st' \<Rightarrow> guards_ok n calls"
proof (induction calls arbitrary: st n)
  case Nil
  then show ?case by (simp add: guards_ok_def)
next
  case (Cons c cs)
  obtain gid m where c: "c = (gid, m)" by (cases c)
  have "int (n gid) + 1 < 2 ^ 32" using Cons.prems(2) [of gid] by simp
  note step = guard_g_step [OF Cons.prems(1) this]
  let ?st = "st\<lparr>guard_map := AList.update gid (int (n gid) + 1) (guard_map st)\<rparr>"
  have "int ((n(gid := n gid + 1)) g) + int (length cs) < 2 ^ 32" for g
    using Cons.prems(2) [of g] by auto
  from Cons.IH [OF step(2) this] show ?case
    by (auto simp: c step(1) Let_def terminates_hook_def guards_ok_Cons split: sum.split)
qed

text \<open>
  C14. The run-time guard. A hook whose guard calls are \<open>calls\<close> (id and bound) runs through all of them exactly
  when every call finds its id called at most as often as its own bound says; otherwise it is ended at the
  offending call with a rollback and \<open>GUARD_VIOLATION\<close>.
\<close>

theorem guard_g_bounds_iterations:
  assumes "int (length calls) < 2 ^ 32"
  shows "case run_guards calls new_exit_state of
     Inl st \<Rightarrow> exitType st = ROLLBACK \<and> exitCode st = GUARD_VIOLATION \<and>
       (\<exists>i < length calls. int (calls_upto calls i) > snd (calls ! i))
   | Inr st \<Rightarrow> (\<forall>i < length calls. int (calls_upto calls i) \<le> snd (calls ! i))"
proof -
  have "guard_inv new_exit_state (\<lambda>_. 0)" by (simp add: guard_inv_def new_exit_state_def)
  from run_guards_result [OF this, of calls] assms show ?thesis
    by (auto simp: guards_ok_def not_le split: sum.splits)
qed

definition guard_example :: "(int \<times> int) list" where
  "guard_example = [(7, 2), (8, 1), (7, 2), (7, 2)]"

theorem guard_g_bounds_iterations_witness:
  "case run_guards guard_example new_exit_state of
     Inl st \<Rightarrow> exitType st = ROLLBACK \<and> exitCode st = GUARD_VIOLATION \<and>
       (\<exists>i < length guard_example. int (calls_upto guard_example i) > snd (guard_example ! i))
   | Inr st \<Rightarrow> (\<forall>i < length guard_example. int (calls_upto guard_example i) \<le> snd (guard_example ! i))"
  by (rule guard_g_bounds_iterations) (simp add: guard_example_def)

subsection \<open>Keylets, \<open>HookOn\<close> and namespaces\<close>

lemma keylet_roundtrip:
  assumes "0 \<le> kl_type kl" "kl_type kl < 2 ^ 16" "length (kl_key kl) = 32" "34 \<le> len" "0 \<le> p" "p + 34 \<le> int (length mem)"
  shows "\<exists>mem'. serialize_keylet kl mem p len = Inr (34, mem') \<and> within p 34 mem mem' \<and>
    unserialize_keylet (mem_read mem' p 34) = Some kl"
proof -
  let ?d = "word_of_int (kl_type kl div 256) # word_of_int (kl_type kl) # kl_key kl :: blob"
  have l: "length ?d = 34" using assms(3) by simp
  have le: "nat p + length ?d \<le> length mem" using assms(5,6) l by linarith
  have rd: "mem_read (mem_put mem (nat p) ?d) p 34 = ?d" using mem_read_put [OF le] assms(5) l by simp
  have q: "0 \<le> kl_type kl div 256" "kl_type kl div 256 < 256" using assms(1,2) by (auto simp: pos_imp_zdiv_nonneg_iff)
  have "unserialize_keylet ?d = Some kl"
    using q assms(1-3) by (cases kl) (simp add: unserialize_keylet_def u16_def unsigned_of_int take_bit_eq_mod)
  with rd l le assms within_put [of p ?d 34 mem] show ?thesis
    by (auto simp: serialize_keylet_def mem_store_def)
qed

lemma canHook_bit:
  assumes "txType < 256"
  shows "canHook txType hookOn \<longleftrightarrow> (if txType = ttHOOK_SET then bit hookOn txType else \<not> bit hookOn txType)"
proof -
  have "canHook txType hookOn \<longleftrightarrow> bit (NOT (hookOn XOR push_bit ttHOOK_SET 1)) txType"
    unfolding canHook_def UINT256_BIT_def Let_def
    by (metis and_exp_eq_0_iff_not_bit push_bit_of_1)
  moreover have "ttHOOK_SET < 256" by (simp add: ttHOOK_SET_def)
  ultimately show ?thesis using assms by (auto simp: bit_simps)
qed

lemma namespace_entries:
  "fst (addHookNamespaceEntry (Some v) ns) = (ns \<notin> set v)"
  "snd (addHookNamespaceEntry (Some v) ns) = Some v' \<Longrightarrow> set v' = insert ns (set v)"
  "snd (addHookNamespaceEntry (Some v) ns) = Some v' \<Longrightarrow> distinct v \<Longrightarrow> distinct v'"
  by (auto simp: addHookNamespaceEntry_def Let_def split: if_splits)

lemma remove_namespace_entry:
  assumes "removeHookNamespaceEntry (Some v) ns = (ch, f)" "distinct v"
  shows "set (case f of None \<Rightarrow> [] | Some w \<Rightarrow> w) = set v - {ns}" "distinct (case f of None \<Rightarrow> [] | Some w \<Rightarrow> w)"
    "ch \<longleftrightarrow> ns \<in> set v \<or> v = []"
proof -
  define sp where "sp = sorted_list_of_set (set (filter (\<lambda>u. u \<noteq> ns) v))"
  have r: "removeHookNamespaceEntry (Some v) ns = (if v = [] then (True, None)
      else if length sp \<noteq> length v then (True, if sp = [] then None else Some sp) else (False, Some v))"
    unfolding removeHookNamespaceEntry_def sp_def Let_def option.case ..
  have s: "set sp = set v - {ns}" and d: "distinct sp" unfolding sp_def by auto
  have "length sp = card (set v - {ns})" using distinct_card [OF d] s by simp
  moreover have "card (set v) = length v" using assms(2) by (rule distinct_card)
  moreover have "card (set v - {ns}) < card (set v)" if "ns \<in> set v" using List.finite_set that by (rule card_Diff1_less)
  ultimately have n: "length sp = length v \<longleftrightarrow> ns \<notin> set v" by (cases "ns \<in> set v") auto
  show "set (case f of None \<Rightarrow> [] | Some w \<Rightarrow> w) = set v - {ns}"
    using assms(1) n s unfolding r by (auto split: if_splits)
  show "distinct (case f of None \<Rightarrow> [] | Some w \<Rightarrow> w)"
    using assms d unfolding r by (auto split: if_splits)
  show "ch \<longleftrightarrow> ns \<in> set v \<or> v = []"
    using assms(1) n unfolding r by (auto split: if_splits)
qed

lemma computeExecutionFee_negative: "computeExecutionFee (2 ^ 63) = - (2 ^ 63)"
  by code_simp

end
