(* ===== verification/Xfl.thy ===== *)
theory Xfl
  imports IOU_Amount Hook_Memory
begin

text \<open>
  The floating point type of the hook API (XFL), \<open>hook_float\<close> and the \<open>float_\<close> functions of
  \<^verbatim>\<open>src/src/ripple/app/hook/impl/applyHook.cpp\<close>. An XFL is a 64-bit integer: bit 62 is set for values
  above zero, bits 54 to 61 hold the exponent plus 97, bits 0 to 53 the mantissa; 0 is zero and every negative
  integer is an error code.

  \<open>lg\<close> is \<open>(int32_t)log10(m)\<close> of the C library. The code relies on it being the number of digits of \<open>m\<close> less
  one, or off by one, which \<open>log10_near\<close> states. Exponents are \<open>int32_t\<close>; where their arithmetic can leave the
  range the wrap-around is written out.
\<close>

subsection \<open>Fields\<close>

definition power_of_ten :: "int list" where
  "power_of_ten = map (\<lambda>i. 10 ^ i) [0..<19]"

definition get_exponent :: "int \<Rightarrow> int" where
  "get_exponent f = (if f < 0 then INVALID_FLOAT else if f = 0 then 0 else (f div 2 ^ 54) mod 256 - 97)"

definition get_mantissa :: "int \<Rightarrow> int" where
  "get_mantissa f = (if f < 0 then INVALID_FLOAT else if f = 0 then 0 else f - (f div 2 ^ 54) * 2 ^ 54)"

definition is_negative :: "int \<Rightarrow> bool" where
  "is_negative f \<longleftrightarrow> (f div 2 ^ 62) mod 2 = 0"

definition invert_sign :: "int \<Rightarrow> int" where
  "invert_sign f = (if (f div 2 ^ 62) mod 2 = 0 then f + 2 ^ 62 else f - 2 ^ 62)"

definition set_sign :: "int \<Rightarrow> bool \<Rightarrow> int" where
  "set_sign f negative =
     (let neg = is_negative f in if neg \<and> negative \<or> \<not> neg \<and> \<not> negative then f else invert_sign f)"

definition set_mantissa :: "int \<Rightarrow> int \<Rightarrow> int" where
  "set_mantissa f m =
     (if m > maxMantissa then MANTISSA_OVERSIZED
      else if m < minMantissa then MANTISSA_UNDERSIZED
      else f - get_mantissa f + m)"

definition set_exponent :: "int \<Rightarrow> int \<Rightarrow> int" where
  "set_exponent f e =
     (if e > iou_maxExponent then EXPONENT_OVERSIZED
      else if e < iou_minExponent then EXPONENT_UNDERSIZED
      else f - (f div 2 ^ 54) mod 256 * 2 ^ 54 + (e + 97) * 2 ^ 54)"

definition make_float_iou :: "IOUAmount \<Rightarrow> int" where
  "make_float_iou amt =
     (let man_out = iou_mantissa amt; neg = man_out < 0; man_out = (if neg then man_out * - 1 else man_out)
      in set_exponent (set_mantissa (set_sign 0 neg) man_out) (iou_exponent amt))"

definition make_float :: "int \<Rightarrow> int \<Rightarrow> bool \<Rightarrow> int" where
  "make_float m e neg =
     (if m = 0 then 0
      else if m > maxMantissa then MANTISSA_OVERSIZED
      else if m < minMantissa then MANTISSA_UNDERSIZED
      else if e > iou_maxExponent then EXPONENT_OVERSIZED
      else if e < iou_minExponent then EXPONENT_UNDERSIZED
      else set_sign (set_exponent (set_mantissa 0 m) e) neg)"

subsection \<open>Normalisation\<close>

text \<open>The mantissa is brought to the order 15; \<open>wrap\<close> is the width of the mantissa.\<close>

definition xfl_scale :: "(int \<Rightarrow> int) \<Rightarrow> int \<Rightarrow> int \<Rightarrow> int \<Rightarrow> int \<times> int" where
  "xfl_scale wrap adjust man ex =
     (if adjust > 0 then (wrap (man * power_of_ten ! nat adjust), s32 (ex - adjust))
      else if adjust < 0 then (man div power_of_ten ! nat (- adjust), s32 (ex - adjust))
      else (man, ex))"

text \<open>Even after the adjustment the mantissa can be outside of the range by one place.\<close>

definition xfl_fit :: "(int \<Rightarrow> int) \<Rightarrow> int \<Rightarrow> int \<Rightarrow> int \<times> int" where
  "xfl_fit wrap man ex =
     (let (man, ex) =
            (if man < minMantissa then
               if man = minMantissa - 1 then (man + 1, ex) else (wrap (man * 10), s32 (ex - 1))
             else (man, ex))
      in if man > maxMantissa then
           if man = maxMantissa + 1 then (man - 1, ex) else (man div 10, s32 (ex + 1))
         else (man, ex))"

definition xfl_finish :: "bool \<Rightarrow> bool \<Rightarrow> int \<Rightarrow> int \<Rightarrow> int \<times> int \<times> int" where
  "xfl_finish sman neg man ex =
     (if ex < iou_minExponent then (0, 0, 0)
      else if man = 0 then (0, man, 0)
      else if ex > iou_maxExponent then (XFL_OVERFLOW, man, ex)
      else (make_float man ex neg, if sman \<and> neg then man * - 1 else man, ex))"

text \<open>
  \<open>sman\<close> says which instance of the template is meant: \<open>int64_t\<close> mantissas or \<open>uint64_t\<close> ones. The result is the
  returned XFL with the mantissa and the exponent left in the references. First the part after the sign has been
  taken off.
\<close>

definition normalize_abs :: "(int \<Rightarrow> int) \<Rightarrow> bool \<Rightarrow> int \<Rightarrow> int \<Rightarrow> bool \<Rightarrow> int \<times> int \<times> int" where
  "normalize_abs lg sman man ex neg =
     (let adjust = 15 - lg man in
      if adjust > 18 then (0, man, ex)
      else if - adjust > 18 then (XFL_OVERFLOW, man, ex)
      else
        let wrap = (if sman then s64 else u64); (man, ex) = xfl_scale wrap adjust man ex in
        if man = 0 then (0, man, 0)
        else let (man, ex) = xfl_fit wrap man ex in xfl_finish sman neg man ex)"

definition normalize_xfl :: "(int \<Rightarrow> int) \<Rightarrow> bool \<Rightarrow> int \<Rightarrow> int \<Rightarrow> bool \<Rightarrow> int \<times> int \<times> int" where
  "normalize_xfl lg sman man ex neg =
     (if man = 0 then (0, man, ex)
      else
        let man = (if man = (if sman then - (2 ^ 63) else 2 ^ 63) then man + 1 else man) in
        if sman \<and> man < 0 then normalize_abs lg sman (man * - 1) ex True
        else normalize_abs lg sman man ex neg)"

subsection \<open>The API functions\<close>

text \<open>\<open>RETURN_IF_INVALID_FLOAT\<close> returns when this holds.\<close>

definition invalid_float :: "int \<Rightarrow> bool" where
  "invalid_float f \<longleftrightarrow> f < 0 \<or> f \<noteq> 0 \<and>
     (get_mantissa f < minMantissa \<or> get_mantissa f > maxMantissa \<or>
      get_exponent f > iou_maxExponent \<or> get_exponent f < iou_minExponent)"

definition float_set :: "(int \<Rightarrow> int) \<Rightarrow> int \<Rightarrow> int \<Rightarrow> int" where
  "float_set lg ex man =
     (if man = 0 then 0
      else let normalized = fst (normalize_xfl lg True man ex False) in
        if normalized = 0 \<or> normalized = XFL_OVERFLOW then INVALID_FLOAT else normalized)"

definition mulratio_internal :: "bool \<Rightarrow> int \<Rightarrow> int \<Rightarrow> bool \<Rightarrow> int \<Rightarrow> int \<Rightarrow> fault + (int \<times> int \<times> int)" where
  "mulratio_internal sw man ex up num den =
     (case rbind (iou_normalize sw to_nearest man ex) (\<lambda>amt. mulRatio sw to_nearest amt num den up) of
        Inl Overflow_error \<Rightarrow> Inr (XFL_OVERFLOW, man, ex)
      | Inl f \<Rightarrow> Inl f
      | Inr out \<Rightarrow> Inr (1, iou_mantissa out, iou_exponent out))"

definition float_multiply_internal_parts :: "(int \<Rightarrow> int) \<Rightarrow> int \<Rightarrow> int \<Rightarrow> bool \<Rightarrow> int \<Rightarrow> int \<Rightarrow> bool \<Rightarrow> int" where
  "float_multiply_internal_parts lg man1 exp1 neg1 man2 exp2 neg2 =
     (let mult = man1 * man2 div power_of_ten ! 15;
          man_out = u64 mult
      in if mult > man_out then XFL_OVERFLOW
         else
           let exp_out = s32 (exp1 + exp2 + 15);
               neg_out = (neg1 \<and> \<not> neg2 \<or> \<not> neg1 \<and> neg2);
               ret = fst (normalize_xfl lg False man_out exp_out neg_out)
           in if ret = EXPONENT_UNDERSIZED then 0
              else if ret = EXPONENT_OVERSIZED then XFL_OVERFLOW
              else ret)"

definition float_int :: "int \<Rightarrow> int \<Rightarrow> bool \<Rightarrow> int" where
  "float_int f decimal_places absolute =
     (if invalid_float f then INVALID_FLOAT
      else if f = 0 then 0
      else if decimal_places > 15 then INVALID_ARGUMENT
      else if is_negative f \<and> \<not> absolute then CANT_RETURN_NEGATIVE
      else
        let shift = - (get_exponent f + decimal_places) in
        if shift > 15 then 0
        else if shift < 0 then TOO_BIG
        else if shift > 0 then get_mantissa f div power_of_ten ! nat shift
        else get_mantissa f)"

definition float_multiply :: "(int \<Rightarrow> int) \<Rightarrow> int \<Rightarrow> int \<Rightarrow> int" where
  "float_multiply lg f1 f2 =
     (if invalid_float f1 then INVALID_FLOAT
      else if invalid_float f2 then INVALID_FLOAT
      else if f1 = 0 \<or> f2 = 0 then 0
      else float_multiply_internal_parts lg (get_mantissa f1) (get_exponent f1) (is_negative f1)
             (get_mantissa f2) (get_exponent f2) (is_negative f2))"

definition float_mulratio :: "bool \<Rightarrow> int \<Rightarrow> int \<Rightarrow> int \<Rightarrow> int \<Rightarrow> int" where
  "float_mulratio sw f up num den =
     (if invalid_float f then INVALID_FLOAT
      else if f = 0 then 0
      else if den = 0 then DIVISION_BY_ZERO
      else case mulratio_internal sw (get_mantissa f) (get_exponent f) (up > 0) num den of
          Inl _ \<Rightarrow> INTERNAL_ERROR
        | Inr (r, man1, exp1) \<Rightarrow>
            if r < 0 then XFL_OVERFLOW
            else make_float (if man1 < 0 then man1 * - 1 else man1) exp1 (is_negative f))"

definition float_negate :: "int \<Rightarrow> int" where
  "float_negate f = (if f = 0 then 0 else if invalid_float f then INVALID_FLOAT else invert_sign f)"

text \<open>The \<open>IOUAmount\<close> of an XFL, as the comparison and the sum make it.\<close>

definition xfl_amount :: "bool \<Rightarrow> int \<Rightarrow> fault + IOUAmount" where
  "xfl_amount sw f =
     iou_normalize sw to_nearest (get_mantissa f * (if is_negative f then - 1 else 1)) (get_exponent f)"

definition catch_overflow :: "fault + int \<Rightarrow> int" where
  "catch_overflow r = (case r of Inl Overflow_error \<Rightarrow> XFL_OVERFLOW | Inl _ \<Rightarrow> INTERNAL_ERROR | Inr c \<Rightarrow> c)"

definition float_compare :: "bool \<Rightarrow> int \<Rightarrow> int \<Rightarrow> int \<Rightarrow> int" where
  "float_compare sw f1 f2 mode =
     (if invalid_float f1 then INVALID_FLOAT
      else if invalid_float f2 then INVALID_FLOAT
      else
        let equal_flag = bit mode 0; less_flag = bit mode 1; greater_flag = bit mode 2;
            not_equal = (less_flag \<and> greater_flag)
        in if equal_flag \<and> less_flag \<and> greater_flag \<or> mode = 0 then INVALID_ARGUMENT
           else if mode div 8 \<noteq> 0 then INVALID_ARGUMENT
           else catch_overflow
             (rbind (xfl_amount sw f1) (\<lambda>amt1. rbind (xfl_amount sw f2) (\<lambda>amt2.
              if not_equal \<and> amt1 \<noteq> amt2 then Inr 1
              else if equal_flag \<and> amt1 = amt2 then Inr 1
              else rbind (if greater_flag then iou_less to_nearest amt2 amt1 else Inr False) (\<lambda>gt.
                if gt then Inr 1
                else rbind (if less_flag then iou_less to_nearest amt1 amt2 else Inr False) (\<lambda>lt.
                  if lt then Inr 1 else Inr 0))))))"

definition float_sum :: "bool \<Rightarrow> int \<Rightarrow> int \<Rightarrow> int" where
  "float_sum sw f1 f2 =
     (if invalid_float f1 then INVALID_FLOAT
      else if invalid_float f2 then INVALID_FLOAT
      else if f1 = 0 then f2
      else if f2 = 0 then f1
      else catch_overflow
        (rbind (xfl_amount sw f1) (\<lambda>amt1. rbind (xfl_amount sw f2) (\<lambda>amt2.
         rbind (iou_add sw to_nearest amt1 amt2) (\<lambda>amt1.
           let result = make_float_iou amt1 in
           if result = EXPONENT_UNDERSIZED then Inr 0 else Inr result)))))"

subsection \<open>Division\<close>

text \<open>The mantissas are unsigned, here natural numbers; after normalisation none of the products reaches $2^{64}$.\<close>

function div_down :: "nat \<Rightarrow> nat \<Rightarrow> int \<Rightarrow> nat \<times> int" where
  "div_down man1 man2 exp2 = (if man2 > man1 then div_down man1 (man2 div 10) (exp2 + 1) else (man2, exp2))"
  by pat_completeness auto
termination by (relation "measure (\<lambda>(man1, man2, exp2). man2)") auto

text \<open>The divisor is not zero here: that case has returned before.\<close>

function div_up :: "nat \<Rightarrow> nat \<Rightarrow> int \<Rightarrow> nat \<times> int" where
  "div_up man1 man2 exp2 =
     (if 0 < man2 \<and> man2 < man1 then
        if man2 * 10 > man1 then (man2, exp2) else div_up man1 (man2 * 10) (exp2 - 1)
      else (man2, exp2))"
  by pat_completeness auto
termination by (relation "measure (\<lambda>(man1, man2, exp2). man1 - man2)") auto

text \<open>The inner loop: how often the divisor can be taken away, and what remains.\<close>

function sub_count :: "bool \<Rightarrow> nat \<Rightarrow> nat \<Rightarrow> nat \<times> nat" where
  "sub_count hasFix man1 man2 =
     (if 0 < man2 \<and> (if hasFix then man1 \<ge> man2 else man1 > man2) then
        let (i, r) = sub_count hasFix (man1 - man2) man2 in (i + 1, r)
      else (0, man1))"
  by pat_completeness auto
termination by (relation "measure (\<lambda>(hasFix, man1, man2). man1)") (auto split: if_splits)

function long_div :: "bool \<Rightarrow> nat \<Rightarrow> nat \<Rightarrow> nat \<Rightarrow> int \<Rightarrow> nat \<times> int" where
  "long_div hasFix man1 man2 man3 exp3 =
     (if man2 > 0 then
        let (i, man1) = sub_count hasFix man1 man2;
            man3 = (man3 * 10 + i) mod 2 ^ 64;
            man2 = man2 div 10
        in if man2 = 0 then (man3, exp3) else long_div hasFix man1 man2 man3 (exp3 - 1)
      else (man3, exp3))"
  by pat_completeness auto
termination by (relation "measure (\<lambda>(hasFix, man1, man2, man3, exp3). man2)") auto

declare div_down.simps [simp del] div_up.simps [simp del] sub_count.simps [simp del] long_div.simps [simp del]

definition float_one :: int where
  "float_one = make_float 1000000000000000 (- 15) False"

definition float_divide_internal :: "(int \<Rightarrow> int) \<Rightarrow> int \<Rightarrow> int \<Rightarrow> bool \<Rightarrow> int" where
  "float_divide_internal lg f1 f2 hasFix =
     (if invalid_float f1 then INVALID_FLOAT
      else if invalid_float f2 then INVALID_FLOAT
      else if f2 = 0 then DIVISION_BY_ZERO
      else if f1 = 0 then 0
      else if f2 = float_one then f1
      else
        let neg1 = is_negative f1; neg2 = is_negative f2;
            (tmp1, man1, exp1) = normalize_xfl lg False (get_mantissa f1) (get_exponent f1) False;
            (tmp2, man2, exp2) = normalize_xfl lg False (get_mantissa f2) (get_exponent f2) False
        in if tmp1 < 0 \<or> tmp2 < 0 then INVALID_FLOAT
           else if tmp1 = 0 then 0
           else
             let (man2, exp2) = div_down (nat man1) (nat man2) exp2 in
             if man2 = 0 then DIVISION_BY_ZERO
             else
               let (man2, exp2) = div_up (nat man1) man2 exp2;
                   (man3, exp3) = long_div hasFix (nat man1) man2 0 (exp1 - exp2);
                   neg3 = (\<not> (neg1 \<and> neg2 \<or> \<not> neg1 \<and> \<not> neg2))
               in fst (normalize_xfl lg False (int man3) exp3 neg3))"

definition float_divide :: "(int \<Rightarrow> int) \<Rightarrow> bool \<Rightarrow> int \<Rightarrow> int \<Rightarrow> int" where
  "float_divide lg fixFloatDivide f1 f2 = float_divide_internal lg f1 f2 fixFloatDivide"

definition float_invert :: "(int \<Rightarrow> int) \<Rightarrow> bool \<Rightarrow> int \<Rightarrow> int" where
  "float_invert lg fixFloatDivide f =
     (if f = 0 then DIVISION_BY_ZERO
      else if f = float_one then float_one
      else float_divide_internal lg float_one f fixFloatDivide)"

definition float_mantissa :: "int \<Rightarrow> int" where
  "float_mantissa f = (if invalid_float f then INVALID_FLOAT else if f = 0 then 0 else get_mantissa f)"

definition float_sign :: "int \<Rightarrow> int" where
  "float_sign f =
     (if invalid_float f then INVALID_FLOAT else if f = 0 then 0 else if is_negative f then 1 else 0)"

subsection \<open>Serialised amounts\<close>

text \<open>The \<open>n\<close> low bytes, the most significant first.\<close>

fun be_bytes :: "nat \<Rightarrow> int \<Rightarrow> blob" where
  "be_bytes 0 m = []"
| "be_bytes (Suc n) m = word_of_int (m div 2 ^ (8 * n)) # be_bytes n m"

definition sto_header_size :: "int \<Rightarrow> int \<Rightarrow> int" where
  "sto_header_size field type =
     (if field = 0 \<and> type = 0 then 0
      else if field = 0xFFFF \<and> type = 0xFFFF then 0
      else if field < 16 \<and> type < 16 then 1
      else if field \<ge> 16 \<and> type < 16 then 2
      else if field < 16 \<and> type \<ge> 16 then 2 else 3)"

definition sto_header :: "int \<Rightarrow> int \<Rightarrow> blob" where
  "sto_header field type =
     (if field < 16 \<and> type < 16 then [word_of_int (u8 type * 16) + word_of_int field]
      else if field \<ge> 16 \<and> type < 16 then [word_of_int (u8 type * 16), word_of_int field]
      else if field < 16 \<and> type \<ge> 16 then [word_of_int (u8 field * 16), word_of_int type]
      else [0, word_of_int type, word_of_int field])"

definition xrp_bytes :: "int \<Rightarrow> bool \<Rightarrow> blob" where
  "xrp_bytes man neg =
     (word_of_int (if neg then 0 else 0x40) + word_of_int (man div 2 ^ 56 mod 64)) # be_bytes 7 man"

definition iou_bytes :: "int \<Rightarrow> int \<Rightarrow> bool \<Rightarrow> blob" where
  "iou_bytes man ex neg =
     (if man = 0 then 0x80 # replicate 7 0
      else let ex = ex + 97 in
        (word_of_int (if neg then 0x80 else 0xC0) + word_of_int (ex div 4)) #
        (word_of_int (u8 (ex mod 4) * 64) + word_of_int (u8 (man div 2 ^ 48) mod 64)) # be_bytes 6 man)"

text \<open>The eight bytes of the amount, or the code the function returns instead.\<close>

definition amount_bytes :: "bool \<Rightarrow> int \<Rightarrow> int + blob" where
  "amount_bytes is_xrp f =
     (let man = get_mantissa f; ex = get_exponent f; neg = is_negative f in
      if is_xrp then
        let shift = - ex in
        if shift > 15 then Inl 0
        else if shift < 0 then Inl XFL_OVERFLOW
        else Inr (xrp_bytes (if shift > 0 then man div power_of_ten ! nat shift else man) neg)
      else Inr (iou_bytes man ex neg))"

text \<open>The currency and the issuer the arguments name; \<open>Inl\<close> is an early return.\<close>

definition read_currency :: "blob \<Rightarrow> int \<Rightarrow> int \<Rightarrow> int + blob option" where
  "read_currency mem cread_ptr cread_len =
     (if cread_len = 0 then if cread_ptr \<noteq> 0 then Inl INVALID_ARGUMENT else Inr None
      else if cread_len \<noteq> 20 \<and> cread_len \<noteq> 3 then Inl INVALID_ARGUMENT
      else if NOT_IN_BOUNDS cread_ptr cread_len mem then Inl OUT_OF_BOUNDS
      else case parseCurrency (mem_read mem cread_ptr cread_len) of
          None \<Rightarrow> Inl INVALID_ARGUMENT
        | Some c \<Rightarrow> Inr (Some c))"

definition read_issuer :: "blob \<Rightarrow> int \<Rightarrow> int \<Rightarrow> int + blob option" where
  "read_issuer mem iread_ptr iread_len =
     (if iread_len = 0 then if iread_ptr \<noteq> 0 then Inl INVALID_ARGUMENT else Inr None
      else if iread_len \<noteq> 20 then Inl INVALID_ARGUMENT
      else if NOT_IN_BOUNDS iread_ptr iread_len mem then Inl OUT_OF_BOUNDS
      else Inr (Some (mem_read mem iread_ptr 20)))"

definition float_sto ::
    "set_data \<Rightarrow> blob \<Rightarrow> int \<Rightarrow> int \<Rightarrow> int \<Rightarrow> int \<Rightarrow> int \<Rightarrow> int \<Rightarrow> int \<Rightarrow> int \<Rightarrow> fault + (int \<times> blob)" where
  "float_sto sd mem write_ptr write_len cread_ptr cread_len iread_ptr iread_len f field_code =
     (if NOT_IN_BOUNDS write_ptr write_len mem then Inr (OUT_OF_BOUNDS, mem)
      else case read_currency mem cread_ptr cread_len of Inl c \<Rightarrow> Inr (c, mem) | Inr currency \<Rightarrow>
        (case read_issuer mem iread_ptr iread_len of Inl c \<Rightarrow> Inr (c, mem) | Inr issuer \<Rightarrow>
        if invalid_float f then Inr (INVALID_FLOAT, mem)
        else
          let field = field_code mod 2 ^ 16; type = field_code div 2 ^ 16;
              is_xrp = (field_code = 0); is_short = (field_code = 0xFFFFFFFF);
              bytes_needed = 8 + sto_header_size field type
          in if issuer \<noteq> None \<and> currency = None then Inr (INVALID_ARGUMENT, mem)
             else if issuer = None \<and> currency \<noteq> None then Inr (INVALID_ARGUMENT, mem)
             else if issuer \<noteq> None \<and> (is_xrp \<or> is_short) then Inr (INVALID_ARGUMENT, mem)
             else if issuer = None \<and> \<not> is_xrp \<and> \<not> is_short then Inr (INVALID_ARGUMENT, mem)
             else if bytes_needed + (if issuer \<noteq> None then 40 else 0) > write_len then Inr (TOO_SMALL, mem)
             else
               rbind (if is_xrp \<or> is_short then Inr (0, mem)
                      else rbind (mem_store mem write_ptr (sto_header field type))
                        (\<lambda>mem. Inr (int (length (sto_header field type)), mem))) (\<lambda>(n, mem).
               case amount_bytes is_xrp f of Inl c \<Rightarrow> Inr (c, mem) | Inr out \<Rightarrow>
               (case WRITE_WASM_MEMORY sd n (write_ptr + n) (write_len - n) out mem of Inl c \<Rightarrow> Inr (c, mem) | Inr (n, mem) \<Rightarrow>
                if is_xrp \<or> is_short then Inr (n, mem)
                else
                  (case WRITE_WASM_MEMORY sd n (write_ptr + n) (write_len - n) (the currency) mem of
                     Inl c \<Rightarrow> Inr (c, mem) | Inr (n, mem) \<Rightarrow>
                  (case WRITE_WASM_MEMORY sd n (write_ptr + n) (write_len - n) (the issuer) mem of
                     Inl c \<Rightarrow> Inr (c, mem) | Inr (n, mem) \<Rightarrow> Inr (n, mem)))))))"

text \<open>The field code in front of a serialised amount; \<open>None\<close> when the bytes end too early.\<close>

definition skip_field_code :: "blob \<Rightarrow> blob option" where
  "skip_field_code bs =
     (if length bs > 8 then
        let hi = uint (bs ! 0) div 16; lo = uint (bs ! 0) mod 16 in
        if hi = 0 \<and> lo = 0 then if length bs < 11 then None else Some (drop 3 bs)
        else if hi = 0 \<or> lo = 0 then if length bs < 10 then None else Some (drop 2 bs)
        else Some (drop 1 bs)
      else Some bs)"

definition parse_amount :: "(int \<Rightarrow> int) \<Rightarrow> blob \<Rightarrow> int" where
  "parse_amount lg bs =
     (let b0 = uint (bs ! 0); b1 = uint (bs ! 1);
          is_xrp = (b0 div 128 = 0); neg = (b0 div 64 mod 2 = 0);
          ex = (if is_xrp then 0 else (b0 mod 64) * 4 + b1 div 64 - 97);
          man = (b1 mod 64) * 2 ^ 48 + be_sum (take 6 (drop 2 bs))
      in if man = 0 then 0 else fst (normalize_xfl lg False man ex neg))"

definition float_sto_set :: "(int \<Rightarrow> int) \<Rightarrow> blob \<Rightarrow> int \<Rightarrow> int \<Rightarrow> int" where
  "float_sto_set lg mem read_ptr read_len =
     (if read_len < 8 then NOT_AN_OBJECT
      else if NOT_IN_BOUNDS read_ptr read_len mem then OUT_OF_BOUNDS
      else case skip_field_code (mem_read mem read_ptr read_len) of
          None \<Rightarrow> NOT_AN_OBJECT
        | Some bs \<Rightarrow> if length bs < 8 then NOT_AN_OBJECT else parse_amount lg bs)"

end
