(* ===== verification/Xfl_Fields.thy ===== *)
theory Xfl_Fields
  imports Xfl
begin

text \<open>
  The encoding of XFL values: the fields of \<open>make_float\<close>, the value of an XFL, and that every operation of
  \<open>Xfl\<close> answers with an error code or with a well-formed XFL.
\<close>

subsection \<open>Well-formed values\<close>

definition xfl_ok :: "int \<Rightarrow> bool" where
  "xfl_ok f \<longleftrightarrow> \<not> invalid_float f \<and> f < 2 ^ 63"

definition parts_ok :: "int \<Rightarrow> int \<Rightarrow> bool" where
  "parts_ok m e \<longleftrightarrow> minMantissa \<le> m \<and> m \<le> maxMantissa \<and> iou_minExponent \<le> e \<and> e \<le> iou_maxExponent"

definition xfl_value :: "int \<Rightarrow> rat" where
  "xfl_value f =
     (if f = 0 then 0 else (if is_negative f then - 1 else 1) * (of_int (get_mantissa f) * 10 powi get_exponent f))"

lemma parts_okD:
  assumes "parts_ok m e"
  shows "1000000000000000 \<le> m" "m \<le> 9999999999999999" "- 96 \<le> e" "e \<le> 80"
  using assms by (simp_all add: parts_ok_def mantissa_bounds iou_minExponent_def iou_maxExponent_def)

lemma make_float_eq:
  assumes "parts_ok m e"
  shows "make_float m e neg = m + (e + 97) * 2 ^ 54 + (if neg then 0 else 2 ^ 62)"
proof -
  note b = parts_okD [OF assms]
  have "m div 2 ^ 54 = 0" using b by simp
  then have s: "set_exponent (set_mantissa 0 m) e = m + (e + 97) * 2 ^ 54"
    using b by (simp add: set_exponent_def set_mantissa_def get_mantissa_def mantissa_bounds
        iou_minExponent_def iou_maxExponent_def)
  have "(m + (e + 97) * 2 ^ 54) div 2 ^ 62 = 0" using b by (intro div_pos_pos_trivial) auto
  then show ?thesis
    using assms b by (auto simp: make_float_def s set_sign_def is_negative_def invert_sign_def parts_ok_def Let_def)
qed

lemma make_float_fields:
  fixes neg :: bool
  assumes "parts_ok m e"
  defines "f \<equiv> make_float m e neg"
  shows "get_mantissa f = m" "get_exponent f = e" "is_negative f = neg" "0 < f" "f < 2 ^ 63" "xfl_ok f"
proof -
  note b = parts_okD [OF assms(1)]
  define s :: int where "s = (if neg then 0 else 1)"
  have f: "f = m + ((e + 97) + s * 256) * 2 ^ 54" unfolding f_def make_float_eq [OF assms(1)] by (simp add: s_def)
  have s: "s = 0 \<or> s = 1" by (simp add: s_def)
  have d54: "f div 2 ^ 54 = (e + 97) + s * 256" unfolding f using b by simp
  have "f = (m + (e + 97) * 2 ^ 54) + s * 2 ^ 62" unfolding f by simp
  moreover have "(m + (e + 97) * 2 ^ 54) div 2 ^ 62 = 0" using b by (intro div_pos_pos_trivial) auto
  ultimately have d62: "f div 2 ^ 62 = s" by simp
  show pos: "0 < f" "f < 2 ^ 63" unfolding f using b s by auto
  show m: "get_mantissa f = m" using pos(1) unfolding get_mantissa_def d54 by (simp add: f)
  have "((e + 97) + s * 256) mod 256 = e + 97" using b by simp
  then show e: "get_exponent f = e" using pos(1) unfolding get_exponent_def d54 by simp
  show "is_negative f = neg" unfolding is_negative_def d62 by (simp add: s_def)
  show "xfl_ok f" using pos assms(1) by (auto simp: xfl_ok_def invalid_float_def m e parts_ok_def)
qed

lemma xfl_ok_parts: "xfl_ok f \<Longrightarrow> f \<noteq> 0 \<Longrightarrow> 0 < f \<and> parts_ok (get_mantissa f) (get_exponent f)"
  by (auto simp: xfl_ok_def invalid_float_def parts_ok_def)

lemma make_float_of_fields:
  assumes "xfl_ok f" "f \<noteq> 0"
  shows "make_float (get_mantissa f) (get_exponent f) (is_negative f) = f"
proof -
  have p: "0 < f" "f < 2 ^ 63" "parts_ok (get_mantissa f) (get_exponent f)"
    using xfl_ok_parts [OF assms] assms(1) by (auto simp: xfl_ok_def)
  have "0 \<le> f div 2 ^ 62" "f div 2 ^ 62 < 2" using p(1,2) by (auto simp: pos_imp_zdiv_nonneg_iff)
  then have s: "f div 2 ^ 62 = 0 \<or> f div 2 ^ 62 = 1" by linarith
  have "f div 2 ^ 62 = f div 2 ^ 54 div 256" by (simp add: zdiv_zmult2_eq [symmetric])
  then have "f div 2 ^ 54 = f div 2 ^ 62 * 256 + f div 2 ^ 54 mod 256" by simp
  moreover have "get_exponent f + 97 = f div 2 ^ 54 mod 256" using p(1) by (simp add: get_exponent_def)
  moreover have "get_mantissa f = f - f div 2 ^ 54 * 2 ^ 54" using p(1) by (simp add: get_mantissa_def)
  moreover have "is_negative f \<longleftrightarrow> f div 2 ^ 62 = 0" using s by (auto simp: is_negative_def)
  ultimately show ?thesis using s unfolding make_float_eq [OF p(3)] by auto
qed

text \<open>
  C21. The XFL encoding is a bijection. The three fields read back from \<open>make_float\<close> are the ones it was given,
  for every mantissa of sixteen digits and every exponent from -96 to 80, and every non-zero XFL that
  \<open>RETURN_IF_INVALID_FLOAT\<close> lets pass is the one made from its fields.
\<close>

theorem make_float_roundtrip:
  assumes "parts_ok m e" "xfl_ok f" "f \<noteq> 0"
  shows "(get_mantissa (make_float m e neg), get_exponent (make_float m e neg), is_negative (make_float m e neg)) = (m, e, neg)
    \<and> xfl_ok (make_float m e neg) \<and> make_float (get_mantissa f) (get_exponent f) (is_negative f) = f"
  using make_float_fields [OF assms(1)] make_float_of_fields [OF assms(2,3)] by simp

lemma parts_ok_example: "parts_ok 1000000000000000 (- 15)"
  by (simp add: parts_ok_def mantissa_bounds iou_minExponent_def iou_maxExponent_def)

lemma float_one_ok: "xfl_ok float_one" "float_one \<noteq> 0"
  using make_float_fields [OF parts_ok_example, of False] by (auto simp: float_one_def)

theorem make_float_roundtrip_witness:
  "(get_mantissa (make_float 1000000000000000 (- 15) True), get_exponent (make_float 1000000000000000 (- 15) True),
    is_negative (make_float 1000000000000000 (- 15) True)) = (1000000000000000, - 15, True)
    \<and> xfl_ok (make_float 1000000000000000 (- 15) True)
    \<and> make_float (get_mantissa float_one) (get_exponent float_one) (is_negative float_one) = float_one"
  by (rule make_float_roundtrip [OF parts_ok_example float_one_ok])

lemma xfl_value_make_float:
  assumes "parts_ok m e"
  shows "xfl_value (make_float m e neg) = (if neg then - 1 else 1) * (of_int m * 10 powi e)"
  using make_float_fields [OF assms, of neg] by (simp add: xfl_value_def)

subsection \<open>Closure\<close>

definition xfl_result :: "int \<Rightarrow> bool" where
  "xfl_result r \<longleftrightarrow> r < 0 \<or> xfl_ok r"

lemma xfl_ok_zero: "xfl_ok 0"
  by (simp add: xfl_ok_def invalid_float_def)

lemma xfl_result_simps: "xfl_result 0" "r < 0 \<Longrightarrow> xfl_result r" "xfl_ok r \<Longrightarrow> xfl_result r"
  by (simp_all add: xfl_result_def xfl_ok_zero)

lemma make_float_result: "xfl_result (make_float m e neg)"
proof (cases "parts_ok m e")
  case True
  then show ?thesis by (simp add: xfl_result_def make_float_fields(6))
next
  case False
  then show ?thesis by (auto simp: make_float_def parts_ok_def xfl_result_def xfl_ok_zero)
qed

lemma normalize_xfl_result: "xfl_result (fst (normalize_xfl lg sman man ex neg))"
proof -
  have "xfl_result (fst (xfl_finish sman neg man ex))" for sman neg man ex
    by (simp add: xfl_finish_def xfl_result_simps make_float_result)
  then have "xfl_result (fst (normalize_abs lg sman man ex neg))" for sman man neg
    by (simp add: normalize_abs_def Let_def split_beta xfl_result_simps)
  then show ?thesis by (simp add: normalize_xfl_def Let_def xfl_result_simps)
qed

lemma float_negate_fields:
  assumes "xfl_ok f"
  shows "float_negate f = (if f = 0 then 0 else make_float (get_mantissa f) (get_exponent f) (\<not> is_negative f))"
proof (cases "f = 0")
  case False
  note p = xfl_ok_parts [OF assms False]
  note e = make_float_eq [OF conjunct2 [OF p]]
  have f: "get_mantissa f + (get_exponent f + 97) * 2 ^ 54 + (if is_negative f then 0 else 2 ^ 62) = f"
    using make_float_of_fields [OF assms False] unfolding e .
  have "invert_sign f = (if is_negative f then f + 2 ^ 62 else f - 2 ^ 62)"
    by (simp add: invert_sign_def is_negative_def)
  moreover have "float_negate f = invert_sign f" using assms False by (simp add: float_negate_def xfl_ok_def)
  ultimately show ?thesis using f False unfolding e by (cases "is_negative f") simp_all
qed (simp add: float_negate_def)

lemma make_float_iou_normal:
  assumes "iou_normal a"
  shows "make_float_iou a = make_float \<bar>iou_mantissa a\<bar> (iou_exponent a) (iou_mantissa a < 0)"
proof -
  let ?m = "\<bar>iou_mantissa a\<bar>" and ?s = "if iou_mantissa a < 0 then 0 else 2 ^ 62 :: int"
  have p: "parts_ok ?m (iou_exponent a)" using assms by (simp add: iou_normal_def parts_ok_def)
  note b = parts_okD [OF p]
  have "set_sign 0 (iou_mantissa a < 0) = ?s" by (simp add: set_sign_def is_negative_def invert_sign_def)
  moreover have "set_mantissa ?s ?m = ?s + ?m"
    using b by (simp add: set_mantissa_def get_mantissa_def mantissa_bounds)
  moreover have "(?m + k * 2 ^ 54) div 2 ^ 54 = k" for k :: int using b by simp
  then have "(?s + ?m) div 2 ^ 54 = (if iou_mantissa a < 0 then 0 else 256)"
    using spec [of "\<lambda>k. (?m + k * 2 ^ 54) div 2 ^ 54 = k" 256] b by (cases "iou_mantissa a < 0") (simp_all add: add.commute)
  ultimately show ?thesis
    using b unfolding make_float_eq [OF p]
    by (auto simp: make_float_iou_def set_exponent_def Let_def iou_minExponent_def iou_maxExponent_def abs_if)
qed

lemma make_float_iou_zero: "make_float_iou iou_zero = EXPONENT_UNDERSIZED"
  by (simp add: make_float_iou_def iou_zero_def set_exponent_def iou_minExponent_def iou_maxExponent_def)

lemma make_float_iou_result: "iou_ok a \<Longrightarrow> xfl_result (make_float_iou a)"
  by (auto simp: iou_ok_def make_float_iou_zero make_float_iou_normal make_float_result xfl_result_simps)

lemma xfl_amount_ok:
  assumes "xfl_ok f"
  obtains a where "xfl_amount sw f = Inr a" "iou_ok a" "iou_value a = xfl_value f" "a = iou_zero \<longleftrightarrow> f = 0"
proof (cases "f = 0")
  case True
  have "xfl_amount sw f = Inr iou_zero"
    by (simp add: True xfl_amount_def get_mantissa_def iou_normalize_def)
  with True that [of iou_zero] show ?thesis by (simp add: iou_ok_def iou_value_zero xfl_value_def)
next
  case False
  let ?a = "\<lparr>iou_mantissa = get_mantissa f * (if is_negative f then - 1 else 1), iou_exponent = get_exponent f\<rparr>"
  note p = xfl_ok_parts [OF assms False]
  have n: "iou_normal ?a" using p by (auto simp: iou_normal_def parts_ok_def mantissa_bounds)
  have "xfl_amount sw f = Inr ?a" using iou_normalize_normal [OF n, of sw to_nearest] by (simp add: xfl_amount_def)
  moreover have "iou_value ?a = xfl_value f" using False by (simp add: iou_value_def xfl_value_def)
  moreover have "?a \<noteq> iou_zero" using n by (auto simp: iou_normal_def iou_zero_def mantissa_bounds)
  ultimately show ?thesis using that [of ?a] n False by (simp add: iou_ok_def)
qed

lemma float_sum_result:
  assumes "f1 < 2 ^ 63" "f2 < 2 ^ 63"
  shows "xfl_result (float_sum sw f1 f2)"
proof (cases "invalid_float f1 \<or> invalid_float f2 \<or> f1 = 0 \<or> f2 = 0")
  case True
  then show ?thesis using assms by (auto simp: float_sum_def xfl_result_def xfl_ok_def)
next
  case False
  then have ok: "xfl_ok f1" "xfl_ok f2" using assms by (auto simp: xfl_ok_def)
  obtain a where a: "xfl_amount sw f1 = Inr a" "iou_ok a" using ok(1) by (rule xfl_amount_ok)
  obtain b where b: "xfl_amount sw f2 = Inr b" "iou_ok b" using ok(2) by (rule xfl_amount_ok)
  have "catch_overflow (Inl x) < 0" for x by (cases x) (simp_all add: catch_overflow_def)
  then show ?thesis
    using False a b make_float_iou_result [OF iou_add_ok [OF a(2) b(2)], of sw]
    by (cases "iou_add sw to_nearest a b") (auto simp: float_sum_def catch_overflow_def Let_def xfl_result_simps)
qed

lemma float_mulratio_result: "xfl_result (float_mulratio sw f up num den)"
  by (auto simp: float_mulratio_def xfl_result_simps make_float_result split: sum.split prod.split)

lemma float_set_result: "xfl_result (float_set lg ex man)"
  using normalize_xfl_result [of lg True man ex False]
  by (auto simp: float_set_def Let_def xfl_result_simps)

lemma float_multiply_result: "xfl_result (float_multiply lg f1 f2)"
  using normalize_xfl_result [of lg False]
  by (auto simp: float_multiply_def float_multiply_internal_parts_def Let_def xfl_result_simps)

lemma float_divide_result: "f1 < 2 ^ 63 \<Longrightarrow> xfl_result (float_divide_internal lg f1 f2 hasFix)"
  using normalize_xfl_result [of lg False]
  by (auto simp: float_divide_internal_def Let_def split_beta xfl_result_simps xfl_ok_def)

lemma float_negate_result: "f < 2 ^ 63 \<Longrightarrow> xfl_result (float_negate f)"
  using float_negate_fields [of f] make_float_result [of "get_mantissa f" "get_exponent f" "\<not> is_negative f"]
  by (cases "invalid_float f") (auto simp: float_negate_def xfl_result_simps xfl_ok_def)

text \<open>
  C23. The type of the XFL functions. Whatever 64-bit integers a hook passes, and however \<open>log10\<close> behaves, each
  arithmetic function answers with a negative code or with an XFL the other functions accept: zero, or a mantissa
  of sixteen digits with an exponent from -96 to 80.
\<close>

theorem xfl_closed:
  assumes "f1 < 2 ^ 63" "f2 < 2 ^ 63"
  shows "xfl_result (float_set lg ex man) \<and> xfl_result (float_multiply lg f1 f2) \<and>
    xfl_result (float_mulratio sw f1 up num den) \<and> xfl_result (float_negate f1) \<and>
    xfl_result (float_sum sw f1 f2) \<and> xfl_result (float_divide lg fix1 f1 f2) \<and> xfl_result (float_invert lg fix1 f1)"
proof -
  have "float_one < 2 ^ 63" using float_one_ok(1) by (simp add: xfl_ok_def)
  then show ?thesis
    using assms float_one_ok(1)
    by (simp add: float_set_result float_multiply_result float_mulratio_result float_negate_result float_sum_result
        float_divide_def float_invert_def float_divide_result xfl_result_simps)
qed

theorem xfl_closed_witness:
  "xfl_result (float_set (\<lambda>_. 0) 7 (- 3)) \<and> xfl_result (float_multiply (\<lambda>_. 0) float_one 5) \<and>
    xfl_result (float_mulratio True float_one 1 2 3) \<and> xfl_result (float_negate float_one) \<and>
    xfl_result (float_sum True float_one 5) \<and> xfl_result (float_divide (\<lambda>_. 0) True float_one 5) \<and>
    xfl_result (float_invert (\<lambda>_. 0) True float_one)"
  using float_one_ok(1) by (intro xfl_closed) (simp_all add: xfl_ok_def)

end
