(* ===== verification/Xfl_Arith.thy ===== *)
theory Xfl_Arith
  imports Xfl_Fields
begin

text \<open>
  The XFL functions compute on values: comparison, sum, negation and conversion to integers.
\<close>

subsection \<open>Comparison\<close>

lemma iou_value_eq_0: "iou_ok a \<Longrightarrow> iou_value a = 0 \<longleftrightarrow> a = iou_zero"
  by (auto simp: iou_ok_def iou_value_zero iou_normal_def iou_value_def mantissa_bounds iou_zero_def)

lemma iou_value_inj:
  assumes "iou_ok a" "iou_ok b" "iou_value a = iou_value b"
  shows "a = b"
proof (cases "a = iou_zero \<or> b = iou_zero")
  case True
  with assms iou_value_eq_0 show ?thesis by metis
next
  case False
  let ?x = "\<lparr>mantissa = iou_mantissa a, exponent = iou_exponent a\<rparr>"
  let ?y = "\<lparr>mantissa = iou_mantissa b, exponent = iou_exponent b\<rparr>"
  have n: "isnormal ?x" "isnormal ?y" using False assms by (auto simp: iou_ok_def isnormal_def iou_normal_def iou_bounds)
  have v: "num_value ?x = num_value ?y" using assms(3) by (simp add: num_value_def iou_value_def)
  have e: "iou_exponent a = iou_exponent b"
    using smaller_exponent [OF n] smaller_exponent [OF n(2,1)] v
    by (cases "iou_exponent a" "iou_exponent b" rule: linorder_cases) auto
  moreover from this assms(3) have "iou_mantissa a = iou_mantissa b" by (simp add: iou_value_def)
  ultimately show ?thesis by simp
qed

text \<open>The relation a mode asks for: bit 0 for equal, bit 1 for less, bit 2 for greater.\<close>

definition compares :: "int \<Rightarrow> rat \<Rightarrow> rat \<Rightarrow> bool" where
  "compares mode v w \<longleftrightarrow> bit mode 0 \<and> v = w \<or> bit mode 1 \<and> v < w \<or> bit mode 2 \<and> v > w"

text \<open>
  C27. \<open>float_compare\<close> decides the relation its mode names on the values: for every mode from 1 to 6 it answers 1
  when the relation holds and 0 when it does not; the modes 0, 7 and everything above are refused.
\<close>

theorem float_compare_value:
  assumes "xfl_ok f1" "xfl_ok f2" "0 \<le> mode"
  shows "float_compare sw f1 f2 mode =
    (if 1 \<le> mode \<and> mode \<le> 6 then if compares mode (xfl_value f1) (xfl_value f2) then 1 else 0 else INVALID_ARGUMENT)"
proof (cases "1 \<le> mode \<and> mode \<le> 6")
  case True
  obtain a where a: "xfl_amount sw f1 = Inr a" "iou_ok a" "iou_value a = xfl_value f1" using assms(1) by (rule xfl_amount_ok)
  obtain b where b: "xfl_amount sw f2 = Inr b" "iou_ok b" "iou_value b = xfl_value f2" using assms(2) by (rule xfl_amount_ok)
  have lt: "iou_less to_nearest a b = Inr (iou_value a < iou_value b)" "iou_less to_nearest b a = Inr (iou_value b < iou_value a)"
    using iou_less_eq a(2) b(2) by blast+
  have eq: "a = b \<longleftrightarrow> iou_value a = iou_value b" using iou_value_inj a(2) b(2) by blast
  have nv: "\<not> invalid_float f1" "\<not> invalid_float f2" using assms by (auto simp: xfl_ok_def)
  have "mode = 1 \<or> mode = 2 \<or> mode = 3 \<or> mode = 4 \<or> mode = 5 \<or> mode = 6" using True by presburger
  then show ?thesis
    by (elim disjE; simp add: float_compare_def nv a b lt eq compares_def catch_overflow_def bit_iff_odd; auto)
next
  case False
  then have "mode = 0 \<or> mode = 7 \<or> 8 \<le> mode" using assms(3) by presburger
  moreover have "mode div 8 \<noteq> 0" if "8 \<le> mode" using that by (simp add: pos_imp_zdiv_pos_iff)
  moreover have "bit (7 :: int) 0" "bit (7 :: int) 1" "bit (7 :: int) 2" by (simp_all add: bit_iff_odd)
  ultimately show ?thesis
    using assms(1,2) False by (auto simp: float_compare_def xfl_ok_def Let_def)
qed

theorem float_compare_value_witness:
  "float_compare True float_one 0 4 =
    (if 1 \<le> (4 :: int) \<and> (4 :: int) \<le> 6 then if compares 4 (xfl_value float_one) (xfl_value 0) then 1 else 0 else INVALID_ARGUMENT)"
  by (rule float_compare_value [OF float_one_ok(1) xfl_ok_zero]) simp

subsection \<open>Sum\<close>

text \<open>
  C26. \<open>float_sum\<close> (with \<open>Number\<close>) is the sum rounded to sixteen digits: the result is within half a unit of the
  last place of the exact sum, or within five units where the mantissa is 9999999999999990; it is 0 only below the
  smallest XFL and \<open>XFL_OVERFLOW\<close> only above the largest.
\<close>

theorem float_sum_near:
  assumes "xfl_ok f1" "xfl_ok f2"
  defines "r \<equiv> float_sum True f1 f2" and "v \<equiv> xfl_value f1 + xfl_value f2"
  shows "r = XFL_OVERFLOW \<and> \<bar>v\<bar> > 9999999999999990 * 10 powi 80 \<or> r = 0 \<and> \<bar>v\<bar> < 10 powi (- 81) \<or>
    xfl_ok r \<and> r \<noteq> 0 \<and>
    \<bar>xfl_value r - v\<bar> \<le> (if get_mantissa r = 9999999999999990 then 5 else 1 / 2) * 10 powi get_exponent r"
proof (cases "f1 = 0 \<or> f2 = 0")
  case True
  have "r = (if f1 = 0 then f2 else f1)" "v = xfl_value (if f1 = 0 then f2 else f1)"
    using True assms by (auto simp: float_sum_def xfl_ok_def xfl_value_def)
  then show ?thesis using assms(1,2) by (cases "r = 0") (auto simp: xfl_value_def)
next
  case False
  obtain a where a: "xfl_amount True f1 = Inr a" "iou_ok a" "iou_value a = xfl_value f1" using assms(1) by (rule xfl_amount_ok)
  obtain b where b: "xfl_amount True f2 = Inr b" "iou_ok b" "iou_value b = xfl_value f2" using assms(2) by (rule xfl_amount_ok)
  have nv: "\<not> invalid_float f1" "\<not> invalid_float f2" using assms(1,2) by (auto simp: xfl_ok_def)
  have near: "iou_near (iou_add True to_nearest a b) v" using iou_add_near [OF a(2) b(2)] by (simp add: a b v_def)
  show ?thesis
  proof (cases "iou_add True to_nearest a b")
    case (Inl e)
    with near False show ?thesis
      by (auto simp: r_def float_sum_def nv a b catch_overflow_def iou_near_def iou_maxExponent_def)
  next
    case (Inr c)
    then have r: "r = (if make_float_iou c = EXPONENT_UNDERSIZED then 0 else make_float_iou c)"
      using False by (simp add: r_def float_sum_def nv a b catch_overflow_def Let_def)
    show ?thesis
    proof (cases "c = iou_zero")
      case True
      with near Inr r show ?thesis by (simp add: make_float_iou_zero iou_near_def iou_minExponent_def)
    next
      case c: False
      with near Inr have n: "iou_normal c" and d: "\<bar>iou_value c - v\<bar> \<le>
          (if \<bar>iou_mantissa c\<bar> = 9999999999999990 then 5 else 1 / 2) * 10 powi iou_exponent c"
        by (auto simp: iou_near_def)
      have p: "parts_ok \<bar>iou_mantissa c\<bar> (iou_exponent c)" using n by (simp add: iou_normal_def parts_ok_def)
      note f = make_float_fields [OF p, of "iou_mantissa c < 0"]
      have rm: "r = make_float \<bar>iou_mantissa c\<bar> (iou_exponent c) (iou_mantissa c < 0)"
        using r f(4) by (simp add: make_float_iou_normal [OF n])
      have "xfl_value r = iou_value c"
        unfolding rm xfl_value_make_float [OF p] by (auto simp: iou_value_def)
      with d f show ?thesis unfolding rm by simp
    qed
  qed
qed

theorem float_sum_near_witness:
  "float_sum True float_one float_one = XFL_OVERFLOW \<and> \<bar>xfl_value float_one + xfl_value float_one\<bar> > 9999999999999990 * 10 powi 80 \<or>
   float_sum True float_one float_one = 0 \<and> \<bar>xfl_value float_one + xfl_value float_one\<bar> < 10 powi (- 81) \<or>
   xfl_ok (float_sum True float_one float_one) \<and> float_sum True float_one float_one \<noteq> 0 \<and>
   \<bar>xfl_value (float_sum True float_one float_one) - (xfl_value float_one + xfl_value float_one)\<bar> \<le>
     (if get_mantissa (float_sum True float_one float_one) = 9999999999999990 then 5 else 1 / 2) *
     10 powi get_exponent (float_sum True float_one float_one)"
  by (rule float_sum_near [OF float_one_ok(1) float_one_ok(1)])

subsection \<open>Negation and conversion to integers\<close>

lemma xfl_value_negate:
  assumes "xfl_ok f"
  shows "xfl_value (float_negate f) = - xfl_value f" "xfl_ok (float_negate f)" "float_negate (float_negate f) = f"
proof -
  have "xfl_value (float_negate f) = - xfl_value f \<and> xfl_ok (float_negate f) \<and> float_negate (float_negate f) = f"
  proof (cases "f = 0")
    case True
    then show ?thesis by (simp add: float_negate_def xfl_value_def xfl_ok_zero)
  next
    case False
    have p: "parts_ok (get_mantissa f) (get_exponent f)" using xfl_ok_parts [OF assms False] by simp
    note n = make_float_fields [OF p, of "\<not> is_negative f"]
    have g: "float_negate f = make_float (get_mantissa f) (get_exponent f) (\<not> is_negative f)"
      using float_negate_fields [OF assms] False by simp
    have "float_negate (float_negate f) = f"
      using float_negate_fields [OF n(6)] n(1-4) make_float_of_fields [OF assms False] by (simp add: g)
    moreover have "xfl_value (float_negate f) = - xfl_value f"
      unfolding g xfl_value_make_float [OF p] using False by (simp add: xfl_value_def)
    ultimately show ?thesis using n(6) g by simp
  qed
  then show "xfl_value (float_negate f) = - xfl_value f" "xfl_ok (float_negate f)" "float_negate (float_negate f) = f"
    by auto
qed

lemma power_of_ten_nth: "i < 19 \<Longrightarrow> power_of_ten ! i = 10 ^ i"
  unfolding power_of_ten_def by (simp del: upt_Suc upt_conv_Cons)

text \<open>
  C29. \<open>float_int\<close> is the integer part: for an XFL and up to fifteen decimal places it answers the floor of the
  magnitude scaled by that power of ten, and \<open>TOO_BIG\<close> exactly when the scaled magnitude has more than sixteen
  digits.
\<close>

theorem float_int_floor:
  assumes "xfl_ok f" "0 \<le> dp" "dp \<le> 15" "is_negative f \<longrightarrow> absolute \<or> f = 0"
  shows "float_int f dp absolute =
    (if \<bar>xfl_value f\<bar> * 10 powi dp \<ge> 10 ^ 16 then TOO_BIG else \<lfloor>\<bar>xfl_value f\<bar> * 10 powi dp\<rfloor>)"
proof (cases "f = 0")
  case True
  then show ?thesis by (simp add: float_int_def invalid_float_def xfl_value_def)
next
  case False
  let ?m = "get_mantissa f" and ?e = "get_exponent f + dp"
  have p: "parts_ok ?m (get_exponent f)" using xfl_ok_parts [OF assms(1) False] by simp
  note b = parts_okD [OF p]
  have mr: "(1000000000000000 :: rat) \<le> of_int ?m" "(of_int ?m :: rat) \<le> 9999999999999999"
    using b(1,2) by linarith+
  have v: "\<bar>xfl_value f\<bar> * 10 powi dp = of_int ?m * 10 powi ?e"
    using False b(1) by (simp add: xfl_value_def abs_mult power_int_add mult.assoc)
  have nv: "\<not> invalid_float f" using assms(1) by (simp add: xfl_ok_def)
  consider "?e > 0" | "- ?e > 15" | "0 \<le> - ?e" "- ?e \<le> 15" by linarith
  then show ?thesis
  proof cases
    case 1
    then have "(10 :: rat) powi 1 \<le> 10 powi ?e" by (intro powi10_mono) simp
    then have "1000000000000000 * 10 \<le> (of_int ?m :: rat) * 10 powi ?e" using mr by (intro mult_mono) auto
    with 1 False nv assms(3,4) show ?thesis by (simp add: float_int_def v Let_def)
  next
    case 2
    then have "(10 :: rat) powi ?e \<le> 10 powi (- 16)" by (intro powi10_mono) simp
    then have "(of_int ?m :: rat) * 10 powi ?e \<le> 9999999999999999 * 10 powi (- 16)" using mr by (intro mult_mono) auto
    also have "\<dots> < 1" by (simp add: power_int_minus)
    finally have "of_int ?m * 10 powi ?e < (1 :: rat)" .
    moreover have "0 \<le> of_int ?m * (10 :: rat) powi ?e" using mr by simp
    ultimately have "\<lfloor>of_int ?m * (10 :: rat) powi ?e\<rfloor> = 0" "\<not> of_int ?m * (10 :: rat) powi ?e \<ge> 10 ^ 16"
      by (auto simp: floor_eq_iff)
    with 2 False nv assms(3,4) show ?thesis by (simp add: float_int_def v Let_def)
  next
    case 3
    define s where "s = nat (- ?e)"
    have e: "?e = - int s" using 3 by (simp add: s_def)
    have w: "of_int ?m * (10 :: rat) powi ?e = of_int ?m / of_int (10 ^ s)"
      unfolding e by (simp add: power_int_minus divide_inverse)
    have "of_int ?m / of_int (10 ^ s) \<le> (of_int ?m / 1 :: rat)" by (rule divide_left_mono) (use mr in auto)
    then have "of_int ?m * (10 :: rat) powi ?e < 10 ^ 16" using mr unfolding w by simp
    moreover have "\<lfloor>of_int ?m * (10 :: rat) powi ?e\<rfloor> = ?m div 10 ^ s"
      unfolding w by (rule floor_divide_of_int_eq)
    moreover have "float_int f dp absolute = ?m div 10 ^ s"
      using 3 False nv assms(3,4) power_of_ten_nth [of s] by (auto simp: float_int_def Let_def s_def)
    ultimately show ?thesis unfolding v by simp
  qed
qed

theorem float_int_floor_witness:
  "float_int float_one 6 False =
    (if \<bar>xfl_value float_one\<bar> * 10 powi 6 \<ge> 10 ^ 16 then TOO_BIG else \<lfloor>\<bar>xfl_value float_one\<bar> * 10 powi 6\<rfloor>)"
  by (rule float_int_floor [OF float_one_ok(1)])
     (simp_all add: float_one_def make_float_fields(3) [OF parts_ok_example])

end
