(* ===== verification/Xfl_Normalize.thy ===== *)
theory Xfl_Normalize
  imports Xfl_Arith
begin







subsection \<open>The adjustment\<close>









subsection \<open>Normalisation\<close>







subsection \<open>Multiplication\<close>





end
