(* ===== verification/Ordered_Map.thy ===== *)
theory Ordered_Map
  imports Main "HOL-Library.List_Lexorder"
begin

text \<open>
  \<open>std::map\<close>: an association list in the order of its keys. \<open>map_put\<close> is assignment through \<open>operator[]\<close>; byte strings
  are compared as \<open>base_uint\<close> and \<open>std::vector\<close> compare them.
\<close>

fun map_put :: "'k :: linorder \<Rightarrow> 'v \<Rightarrow> ('k \<times> 'v) list \<Rightarrow> ('k \<times> 'v) list" where
  "map_put k v [] = [(k, v)]"
| "map_put k v ((k', v') # m) =
     (if k < k' then (k, v) # (k', v') # m else if k = k' then (k, v) # m else (k', v') # map_put k v m)"

definition keys_ok :: "('k :: linorder \<times> 'v) list \<Rightarrow> bool" where
  "keys_ok m \<longleftrightarrow> sorted_wrt (<) (map fst m)"

lemma map_of_map_put [simp]: "map_of (map_put k v m) = (map_of m)(k \<mapsto> v)"
  by (induction k v m rule: map_put.induct) auto

lemma map_put_keys: "fst ` set (map_put k v m) = insert k (fst ` set m)"
  by (induction k v m rule: map_put.induct) auto

lemma keys_ok_map_put: "keys_ok m \<Longrightarrow> keys_ok (map_put k v m)"
proof (induction k v m rule: map_put.induct)
  case (2 k v k' v' m)
  have m: "keys_ok m" "\<forall>x \<in> fst ` set m. k' < x" using "2.prems" by (auto simp: keys_ok_def)
  consider "k < k'" | "k = k'" | "k' < k" by (rule linorder_cases)
  then show ?case
  proof cases
    case 1
    then have "\<forall>x \<in> fst ` set m. k < x" using m(2) by (blast intro: less_trans)
    with 1 m show ?thesis by (simp add: keys_ok_def)
  next
    case 2
    with m show ?thesis by (simp add: keys_ok_def)
  next
    case 3
    then have "keys_ok (map_put k v m)" using "2.IH" m(1) by simp
    moreover have "\<forall>x \<in> fst ` set (map_put k v m). k' < x" using m(2) 3 by (simp add: map_put_keys)
    moreover have "\<not> k < k'" "k \<noteq> k'" using 3 by auto
    ultimately show ?thesis by (simp add: keys_ok_def)
  qed
qed (simp add: keys_ok_def)

lemma keys_ok_distinct: "keys_ok m \<Longrightarrow> distinct (map fst m)"
  by (simp add: keys_ok_def strict_sorted_iff)

lemma keys_ok_nil [simp]: "keys_ok []" and keys_ok_single [simp]: "keys_ok [x]"
  by (simp_all add: keys_ok_def)

lemma map_put_values: "(k', v') \<in> set (map_put k v m) \<Longrightarrow> (k', v') = (k, v) \<or> (k', v') \<in> set m"
  by (induction k v m rule: map_put.induct) (auto split: if_splits)

end
