(* ===== verification/Hook_State.thy ===== *)
theory Hook_State
  imports Hook_Memory Ordered_Map
begin

text \<open>
  The state of hooks: the cache \<open>HookStateMap\<close> that all hooks of a transaction share, the API functions
  \<open>state\<close>, \<open>state_foreign\<close>, \<open>state_set\<close> and \<open>state_foreign_set\<close>, and the commit \<open>finalizeHookState\<close> with
  \<open>setHookState\<close>, of \<^verbatim>\<open>src/src/ripple/app/hook/impl/applyHook.cpp\<close>.

  Accounts, namespaces and keys are byte strings, ordered as \<open>base_uint\<close> orders them. A \<open>std::map\<close> is an
  association list that \<open>map_put\<close> keeps in the order of the keys. Of the ledger the model has what these functions
  read and write: the account roots, the state entries and the namespace directories, a directory being the list of
  its keys; its pages are left out, \<open>dir_full\<close> says where \<open>dirInsert\<close> finds no page.
\<close>

subsection \<open>The ledger\<close>

type_synonym AccountID = blob

record acct_root =
  Balance :: int
  OwnerCount :: int
  HookStateCount :: int
  HookNamespaces :: "blob list option"

record ledger =
  accts :: "(AccountID \<times> acct_root) list"
  hookStates :: "((AccountID \<times> blob \<times> blob) \<times> blob) list"
  stateDirs :: "((AccountID \<times> blob) \<times> blob list) list"

record view_env =
  reserve :: int
  increment :: int
  fixXahauV1 :: bool
  dir_full :: "AccountID \<Rightarrow> blob \<Rightarrow> bool"

datatype TER = tesSUCCESS | tefINTERNAL | temHOOK_DATA_TOO_LARGE | tefBAD_LEDGER | tecINSUFFICIENT_RESERVE
  | tecDIR_FULL | tecHOOK_REJECTED

definition accountReserve :: "view_env \<Rightarrow> int \<Rightarrow> int" where
  "accountReserve env n = reserve env + n * increment env"

definition confineOwnerCount :: "int \<Rightarrow> int \<Rightarrow> int" where
  "confineOwnerCount current adjustment =
     (let adjusted = u32 (current + adjustment) in
      if adjustment > 0 then if adjusted < current then 2 ^ 32 - 1 else adjusted
      else if adjusted > current then 0 else adjusted)"

definition adjustOwnerCount :: "acct_root \<Rightarrow> int \<Rightarrow> acct_root" where
  "adjustOwnerCount a amount = a\<lparr>OwnerCount := confineOwnerCount (OwnerCount a) amount\<rparr>"

definition dirInsert :: "view_env \<Rightarrow> AccountID \<Rightarrow> blob \<Rightarrow> blob \<Rightarrow> ledger \<Rightarrow> ledger option" where
  "dirInsert env acc ns key L =
     (if dir_full env acc ns then None
      else
        let ks = (case map_of (stateDirs L) (acc, ns) of None \<Rightarrow> [] | Some ks \<Rightarrow> ks)
        in Some (L\<lparr>stateDirs := AList.update (acc, ns) (ks @ [key]) (stateDirs L)\<rparr>))"

text \<open>The directory goes when its last entry goes.\<close>

definition dirRemove :: "AccountID \<Rightarrow> blob \<Rightarrow> blob \<Rightarrow> ledger \<Rightarrow> ledger option" where
  "dirRemove acc ns key L =
     (case map_of (stateDirs L) (acc, ns) of
        None \<Rightarrow> None
      | Some ks \<Rightarrow>
          if key \<notin> set ks then None
          else let ks = remove1 key ks in
            Some (L\<lparr>stateDirs :=
              (if ks = [] then AList.delete (acc, ns) (stateDirs L)
               else AList.update (acc, ns) ks (stateDirs L))\<rparr>))"

definition dirExists :: "AccountID \<Rightarrow> blob \<Rightarrow> ledger \<Rightarrow> bool" where
  "dirExists acc ns L \<longleftrightarrow> map_of (stateDirs L) (acc, ns) \<noteq> None"

definition put_acct :: "AccountID \<Rightarrow> acct_root \<Rightarrow> ledger \<Rightarrow> ledger" where
  "put_acct acc a L = L\<lparr>accts := AList.update acc a (accts L)\<rparr>"

subsection \<open>Writing an entry to the ledger\<close>

definition deleteHookState :: "AccountID \<Rightarrow> acct_root \<Rightarrow> blob \<Rightarrow> blob \<Rightarrow> ledger \<Rightarrow> TER \<times> ledger" where
  "deleteHookState acc a ns key L =
     (if map_of (hookStates L) (acc, ns, key) = None then (tesSUCCESS, L)
      else if \<not> dirExists acc ns L then (tefBAD_LEDGER, L)
      else case dirRemove acc ns key L of
          None \<Rightarrow> (tefBAD_LEDGER, L)
        | Some L \<Rightarrow>
            let nsDestroyed = (\<not> dirExists acc ns L);
                L = L\<lparr>hookStates := AList.delete (acc, ns, key) (hookStates L)\<rparr>;
                oldStateReserve = computeHookStateOwnerCount (HookStateCount a);
                stateCount = (if HookStateCount a > 0 then HookStateCount a - 1 else HookStateCount a);
                a = (if computeHookStateOwnerCount stateCount < oldStateReserve then adjustOwnerCount a (- 1) else a);
                a = a\<lparr>HookStateCount := stateCount\<rparr>;
                a = (if nsDestroyed then a\<lparr>HookNamespaces := snd (removeHookNamespaceEntry (HookNamespaces a) ns)\<rparr> else a)
            in (tesSUCCESS, put_acct acc a L))"

definition createHookState :: "view_env \<Rightarrow> AccountID \<Rightarrow> acct_root \<Rightarrow> blob \<Rightarrow> blob \<Rightarrow> blob \<Rightarrow> ledger \<Rightarrow> TER \<times> ledger" where
  "createHookState env acc a ns key bs L =
     (let oldStateReserve = computeHookStateOwnerCount (HookStateCount a);
          stateCount = u32 (HookStateCount a + 1);
          grows = (computeHookStateOwnerCount stateCount > oldStateReserve)
      in if grows \<and> Balance a < accountReserve env (u32 (OwnerCount a + 1)) then (tecINSUFFICIENT_RESERVE, L)
         else
           let a = (if grows then adjustOwnerCount a 1 else a);
               a = a\<lparr>HookStateCount := stateCount\<rparr>;
               L = put_acct acc a L;
               nsExists = dirExists acc ns L
           in case dirInsert env acc ns key L of
                None \<Rightarrow> (tecDIR_FULL, L)
              | Some L \<Rightarrow>
                  let L = L\<lparr>hookStates := AList.update (acc, ns, key) bs (hookStates L)\<rparr>
                  in (tesSUCCESS,
                      if \<not> nsExists then
                        put_acct acc (a\<lparr>HookNamespaces := snd (addHookNamespaceEntry (HookNamespaces a) ns)\<rparr>) L
                      else L))"

definition setHookState :: "view_env \<Rightarrow> AccountID \<Rightarrow> blob \<Rightarrow> blob \<Rightarrow> blob \<Rightarrow> ledger \<Rightarrow> TER \<times> ledger" where
  "setHookState env acc ns key bs L =
     (case map_of (accts L) acc of
        None \<Rightarrow> (tefINTERNAL, L)
      | Some a \<Rightarrow>
          if int (length bs) > maxHookStateDataSize then (temHOOK_DATA_TOO_LARGE, L)
          else if bs = [] then deleteHookState acc a ns key L
          else if map_of (hookStates L) (acc, ns, key) = None then createHookState env acc a ns key bs L
          else (tesSUCCESS, L\<lparr>hookStates := AList.update (acc, ns, key) bs (hookStates L)\<rparr>))"

subsection \<open>The cache\<close>

type_synonym ns_map = "(blob \<times> (bool \<times> blob)) list"

record acc_entry =
  availableForReserves :: int
  namespaceCount :: int
  namespaces :: "(blob \<times> ns_map) list"

record HookStateMap =
  entries :: "(AccountID \<times> acc_entry) list"
  modified_entry_count :: int

text \<open>What the running hook is, and what its calls change.\<close>

record hook_ident =
  hookAccount :: AccountID
  hookNamespace :: blob
  hookHash :: blob

record state_ctx =
  stateMap :: HookStateMap
  changedStateCount :: int
  foreignStateSetDisabled :: bool

definition make_state_key :: "blob \<Rightarrow> blob option" where
  "make_state_key source =
     (if length source > 32 \<or> length source < 1 then None
      else Some (replicate (32 - length source) 0 @ source))"

definition lookup_state_cache :: "HookStateMap \<Rightarrow> AccountID \<Rightarrow> blob \<Rightarrow> blob \<Rightarrow> (bool \<times> blob) option" where
  "lookup_state_cache M acc ns key =
     (case map_of (entries M) acc of
        None \<Rightarrow> None
      | Some e \<Rightarrow> (case map_of (namespaces e) ns of None \<Rightarrow> None | Some m \<Rightarrow> map_of m key))"

text \<open>C++ division truncates towards zero.\<close>

definition reserve_slots :: "view_env \<Rightarrow> acct_root \<Rightarrow> int" where
  "reserve_slots env a =
     (let available = Balance a - accountReserve env (OwnerCount a);
          inc = (if increment env \<le> 0 then 1 else increment env)
      in if available < 0 then - (- available div inc) else available div inc)"

text \<open>The first time an account is touched.\<close>

definition new_account_entry ::
    "view_env \<Rightarrow> ledger \<Rightarrow> AccountID \<Rightarrow> blob \<Rightarrow> blob \<Rightarrow> blob \<Rightarrow> bool \<Rightarrow> bool \<Rightarrow> state_ctx \<Rightarrow> int \<times> state_ctx" where
  "new_account_entry env L acc ns key bs modified createNamespace S =
     (case map_of (accts L) acc of
        None \<Rightarrow> (DOESNT_EXIST, S)
      | Some a \<Rightarrow>
          let avail = reserve_slots env a in
          if avail < 1 \<and> modified then (RESERVE_INSUFFICIENT, S)
          else
            let nsCount = (case HookNamespaces a of None \<Rightarrow> 0 | Some v \<Rightarrow> int (length v));
                nsCount = (if createNamespace then nsCount + 1 else nsCount)
            in if createNamespace \<and> nsCount > maxNamespaces then (TOO_MANY_NAMESPACES, S)
               else
                 let e = \<lparr>availableForReserves = avail - 1, namespaceCount = nsCount,
                          namespaces = [(ns, [(key, (modified, bs))])]\<rparr>;
                     M = stateMap S
                 in (1, S\<lparr>stateMap := \<lparr>entries = map_put acc e (entries M),
                                      modified_entry_count = modified_entry_count M + 1\<rparr>\<rparr>))"

definition set_state_cache ::
    "view_env \<Rightarrow> ledger \<Rightarrow> AccountID \<Rightarrow> blob \<Rightarrow> blob \<Rightarrow> blob \<Rightarrow> bool \<Rightarrow> state_ctx \<Rightarrow> int \<times> state_ctx" where
  "set_state_cache env L acc ns key bs modified S =
     (let M = stateMap S in
      if modified \<and> modified_entry_count M \<ge> max_state_modifications then (TOO_MANY_STATE_MODIFICATIONS, S)
      else
        let createNamespace = (fixXahauV1 env \<and> \<not> dirExists acc ns L) in
        case map_of (entries M) acc of
          None \<Rightarrow> new_account_entry env L acc ns key bs modified createNamespace S
        | Some e \<Rightarrow>
            let count = (if modified then modified_entry_count M + 1 else modified_entry_count M);
                commit = (\<lambda>e. S\<lparr>stateMap := \<lparr>entries = map_put acc e (entries M), modified_entry_count = count\<rparr>\<rparr>);
                spend = (\<lambda>e. if modified then e\<lparr>availableForReserves := availableForReserves e - 1\<rparr> else e)
            in case map_of (namespaces e) ns of
                 None \<Rightarrow>
                   if modified \<and> \<not> availableForReserves e > 0 then (RESERVE_INSUFFICIENT, S)
                   else if modified \<and> createNamespace \<and> namespaceCount e + 1 > maxNamespaces then (TOO_MANY_NAMESPACES, S)
                   else
                     let e = (if modified \<and> createNamespace then e\<lparr>namespaceCount := namespaceCount e + 1\<rparr> else e)
                     in (1, commit ((spend e)\<lparr>namespaces := map_put ns [(key, (modified, bs))] (namespaces e)\<rparr>))
               | Some m \<Rightarrow>
                   (case map_of m key of
                      None \<Rightarrow>
                        if modified \<and> \<not> availableForReserves e > 0 then (RESERVE_INSUFFICIENT, S)
                        else
                          (1, (commit ((spend e)\<lparr>namespaces := map_put ns (map_put key (modified, bs) m) (namespaces e)\<rparr>))
                                \<lparr>changedStateCount := u16 (changedStateCount S + 1)\<rparr>)
                    | Some (was, _) \<Rightarrow>
                        let S' = commit (e\<lparr>namespaces := map_put ns (map_put key (was \<or> modified, bs) m) (namespaces e)\<rparr>)
                        in (1, if modified \<and> \<not> was then S'\<lparr>changedStateCount := u16 (changedStateCount S + 1)\<rparr> else S')))"

subsection \<open>Grants\<close>

record hook_grant =
  grant_hash :: blob
  grant_authorize :: "AccountID option"

record hook_obj =
  obj_hash :: "blob option"
  obj_grants :: "hook_grant list option"
  obj_namespace :: "blob option"

text \<open>The hooks installed on an account and the namespace of a hook definition, as the view finds them.\<close>

record hook_view =
  hooks_of :: "AccountID \<Rightarrow> hook_obj list option"
  def_namespace :: "blob \<Rightarrow> blob option"

definition grant_matches :: "hook_ident \<Rightarrow> hook_grant \<Rightarrow> bool" where
  "grant_matches me g \<longleftrightarrow> grant_hash g = hookHash me \<and> (grant_authorize g = None \<or> grant_authorize g = Some (hookAccount me))"

definition hook_grants :: "hook_view \<Rightarrow> hook_ident \<Rightarrow> blob \<Rightarrow> hook_obj \<Rightarrow> bool" where
  "hook_grants V me ns h =
     (case obj_hash h of
        None \<Rightarrow> False
      | Some hash \<Rightarrow>
          (case obj_grants h of
             None \<Rightarrow> False
           | Some gs \<Rightarrow>
               if length gs < 1 then False
               else if (case obj_namespace h of Some n \<Rightarrow> n \<noteq> ns | None \<Rightarrow> def_namespace V hash \<noteq> Some ns) then False
               else list_ex (grant_matches me) gs))"

definition found_auth :: "hook_view \<Rightarrow> hook_ident \<Rightarrow> blob \<Rightarrow> hook_obj list \<Rightarrow> bool" where
  "found_auth V me ns hooks = list_ex (hook_grants V me ns) hooks"

subsection \<open>The API functions\<close>

abbreviation (input) tefINTERNAL_CODE :: int where "tefINTERNAL_CODE \<equiv> - 192"

text \<open>A write that is allowed: its code is the number of bytes or what the cache says.\<close>

definition cached_write ::
    "view_env \<Rightarrow> ledger \<Rightarrow> AccountID \<Rightarrow> blob \<Rightarrow> blob \<Rightarrow> blob \<Rightarrow> int \<Rightarrow> state_ctx \<Rightarrow> int \<times> state_ctx" where
  "cached_write env L acc ns key bs read_len S =
     (let (ret, S) = set_state_cache env L acc ns key bs True S in (if ret < 0 then ret else read_len, S))"

text \<open>The write after the checks of the arguments.\<close>

definition write_state ::
    "view_env \<Rightarrow> ledger \<Rightarrow> hook_view \<Rightarrow> hook_ident \<Rightarrow> AccountID \<Rightarrow> blob \<Rightarrow> blob \<Rightarrow> blob \<Rightarrow> int \<Rightarrow> state_ctx \<Rightarrow> int \<times> state_ctx" where
  "write_state env L V me acc ns key bs read_len S =
     (if acc = hookAccount me then cached_write env L acc ns key bs read_len S
      else if foreignStateSetDisabled S then (PREVIOUS_FAILURE_PREVENTS_RETRY, S)
      else if (case lookup_state_cache (stateMap S) acc ns key of Some (True, _) \<Rightarrow> True | _ \<Rightarrow> False) then
        cached_write env L acc ns key bs read_len S
      else case hooks_of V acc of
          None \<Rightarrow> (INTERNAL_ERROR, S)
        | Some hooks \<Rightarrow>
            if \<not> found_auth V me ns hooks then (NOT_AUTHORIZED, S\<lparr>foreignStateSetDisabled := True\<rparr>)
            else cached_write env L acc ns key bs read_len S)"

definition state_foreign_set ::
    "view_env \<Rightarrow> ledger \<Rightarrow> hook_view \<Rightarrow> hook_ident \<Rightarrow> blob \<Rightarrow> int \<Rightarrow> int \<Rightarrow> int \<Rightarrow> int \<Rightarrow> int \<Rightarrow> int \<Rightarrow> int \<Rightarrow> int \<Rightarrow>
     state_ctx \<Rightarrow> int \<times> state_ctx" where
  "state_foreign_set env L V me mem read_ptr read_len kread_ptr kread_len nread_ptr nread_len aread_ptr aread_len S =
     (if \<not> (read_ptr = 0 \<and> read_len = 0) \<and> NOT_IN_BOUNDS read_ptr read_len mem then (OUT_OF_BOUNDS, S)
      else if kread_len > 32 then (TOO_BIG, S)
      else if kread_len < 1 then (TOO_SMALL, S)
      else if nread_len \<noteq> 0 \<and> nread_len \<noteq> 32 then (INVALID_ARGUMENT, S)
      else if aread_len \<noteq> 0 \<and> aread_len \<noteq> 20 then (INVALID_ARGUMENT, S)
      else if NOT_IN_BOUNDS kread_ptr kread_len mem then (OUT_OF_BOUNDS, S)
      else if nread_ptr = 0 \<and> nread_len = 0 \<and> \<not> (aread_ptr = 0 \<and> aread_len = 0) then (INVALID_ARGUMENT, S)
      else if nread_len \<noteq> 0 \<and> NOT_IN_BOUNDS nread_ptr nread_len mem \<or>
              kread_len \<noteq> 0 \<and> NOT_IN_BOUNDS kread_ptr kread_len mem \<or>
              aread_len \<noteq> 0 \<and> NOT_IN_BOUNDS aread_ptr aread_len mem then (OUT_OF_BOUNDS, S)
      else if read_len > maxHookStateDataSize then (TOO_BIG, S)
      else
        let ns = (if nread_len = 0 then hookNamespace me else mem_read mem nread_ptr 32);
            acc = (if aread_len = 20 then mem_read mem aread_ptr 20 else hookAccount me)
        in if fixXahauV1 env \<and> map_of (accts L) (hookAccount me) = None then (tefINTERNAL_CODE, S)
           else case make_state_key (mem_read mem kread_ptr kread_len) of
               None \<Rightarrow> (INTERNAL_ERROR, S)
             | Some key \<Rightarrow> write_state env L V me acc ns key (mem_read mem read_ptr read_len) read_len S)"

definition state_set ::
    "view_env \<Rightarrow> ledger \<Rightarrow> hook_view \<Rightarrow> hook_ident \<Rightarrow> blob \<Rightarrow> int \<Rightarrow> int \<Rightarrow> int \<Rightarrow> int \<Rightarrow> state_ctx \<Rightarrow> int \<times> state_ctx" where
  "state_set env L V me mem read_ptr read_len kread_ptr kread_len S =
     state_foreign_set env L V me mem read_ptr read_len kread_ptr kread_len 0 0 0 0 S"

text \<open>The read after the checks: the bytes of the entry, or the code that is returned.\<close>

definition read_state ::
    "view_env \<Rightarrow> ledger \<Rightarrow> AccountID \<Rightarrow> blob \<Rightarrow> blob \<Rightarrow> state_ctx \<Rightarrow> (int + blob) \<times> state_ctx" where
  "read_state env L acc ns key S =
     (case lookup_state_cache (stateMap S) acc ns key of
        Some (_, bs) \<Rightarrow> (Inr bs, S)
      | None \<Rightarrow>
          (case map_of (hookStates L) (acc, ns, key) of
             None \<Rightarrow> (Inl DOESNT_EXIST, S)
           | Some bs \<Rightarrow>
               let (ret, S) = set_state_cache env L acc ns key bs False S in
               (if ret < 0 then Inl INTERNAL_ERROR else Inr bs, S)))"

definition state_foreign ::
    "set_data \<Rightarrow> view_env \<Rightarrow> ledger \<Rightarrow> hook_ident \<Rightarrow> blob \<Rightarrow> int \<Rightarrow> int \<Rightarrow> int \<Rightarrow> int \<Rightarrow> int \<Rightarrow> int \<Rightarrow> int \<Rightarrow> int \<Rightarrow>
     state_ctx \<Rightarrow> int \<times> blob \<times> state_ctx" where
  "state_foreign sd env L me mem write_ptr write_len kread_ptr kread_len nread_ptr nread_len aread_ptr aread_len S =
     (let is_foreign = (aread_ptr \<noteq> 0) in
      if \<not> is_foreign \<and> aread_len \<noteq> 0 then (INVALID_ARGUMENT, mem, S)
      else if is_foreign \<and> aread_len \<noteq> 20 then (INVALID_ARGUMENT, mem, S)
      else if kread_len > 32 then (TOO_BIG, mem, S)
      else if kread_len < 1 then (TOO_SMALL, mem, S)
      else if write_len < 1 \<and> write_ptr \<noteq> 0 then (TOO_SMALL, mem, S)
      else if \<not> (\<not> is_foreign \<and> nread_len = 0) \<and> nread_len \<noteq> 32 then (INVALID_ARGUMENT, mem, S)
      else if NOT_IN_BOUNDS kread_ptr kread_len mem \<or> NOT_IN_BOUNDS nread_ptr nread_len mem \<or>
              NOT_IN_BOUNDS aread_ptr aread_len mem \<or> NOT_IN_BOUNDS write_ptr write_len mem then (OUT_OF_BOUNDS, mem, S)
      else
        let ns = (if nread_len = 0 then hookNamespace me else mem_read mem nread_ptr 32);
            acc = (if is_foreign then mem_read mem aread_ptr 20 else hookAccount me)
        in case make_state_key (mem_read mem kread_ptr kread_len) of
             None \<Rightarrow> (INVALID_ARGUMENT, mem, S)
           | Some key \<Rightarrow>
               (case read_state env L acc ns key S of
                  (Inl code, S) \<Rightarrow> (code, mem, S)
                | (Inr bs, S) \<Rightarrow>
                    let (code, mem) = WRITE_WASM_MEMORY_OR_RETURN_AS_INT64 sd write_ptr write_len bs False mem
                    in (code, mem, S)))"

definition state_api ::
    "set_data \<Rightarrow> view_env \<Rightarrow> ledger \<Rightarrow> hook_ident \<Rightarrow> blob \<Rightarrow> int \<Rightarrow> int \<Rightarrow> int \<Rightarrow> int \<Rightarrow> state_ctx \<Rightarrow> int \<times> blob \<times> state_ctx" where
  "state_api sd env L me mem write_ptr write_len kread_ptr kread_len S =
     state_foreign sd env L me mem write_ptr write_len kread_ptr kread_len 0 0 0 0 S"

subsection \<open>The commit\<close>

text \<open>The three nested loops over the cache visit its entries in this order.\<close>

type_synonym cache_item = "(AccountID \<times> blob \<times> blob) \<times> bool \<times> blob"

definition cache_items :: "HookStateMap \<Rightarrow> cache_item list" where
  "cache_items M = concat (map (\<lambda>(acc, e). concat (map (\<lambda>(ns, m). map (\<lambda>(key, v). ((acc, ns, key), v)) m) (namespaces e))) (entries M))"

fun commit_items :: "view_env \<Rightarrow> int \<Rightarrow> cache_item list \<Rightarrow> ledger \<Rightarrow> TER \<times> ledger" where
  "commit_items env changeCount [] L = (tesSUCCESS, L)"
| "commit_items env changeCount (((acc, ns, key), is_modified, bs) # items) L =
     (if is_modified then
        let changeCount = u16 (changeCount + 1) in
        if changeCount > max_state_modifications + 1 then (tecHOOK_REJECTED, L)
        else let (result, L) = setHookState env acc ns key bs L in
          if result \<noteq> tesSUCCESS then (result, L) else commit_items env changeCount items L
      else commit_items env changeCount items L)"

definition finalizeHookState :: "view_env \<Rightarrow> HookStateMap \<Rightarrow> ledger \<Rightarrow> TER \<times> ledger" where
  "finalizeHookState env M L = commit_items env 0 (cache_items M) L"

end
