(* ===== verification/Hook_State_Cache.thy ===== *)
theory Hook_State_Cache
  imports Hook_State
begin

text \<open>
  The cache of hook state as a map from account, namespace and key to a value with a mark for modified entries. The
  locale \<open>write_cache\<close> is what its users rely on; \<open>set_state_cache\<close> and \<open>lookup_state_cache\<close> provide it.
\<close>

subsection \<open>Well-formed caches\<close>

definition acc_wf :: "acc_entry \<Rightarrow> bool" where
  "acc_wf e \<longleftrightarrow> keys_ok (namespaces e) \<and> (\<forall>(ns, m) \<in> set (namespaces e). keys_ok m)"

definition map_wf :: "HookStateMap \<Rightarrow> bool" where
  "map_wf M \<longleftrightarrow> keys_ok (entries M) \<and> (\<forall>(acc, e) \<in> set (entries M). acc_wf e)"

lemma map_wf_put:
  assumes "map_wf M" "acc_wf e"
  shows "map_wf \<lparr>entries = map_put acc e (entries M), modified_entry_count = n\<rparr>"
  using assms by (auto simp: map_wf_def keys_ok_map_put dest!: map_put_values)

lemma acc_wf_put:
  assumes "acc_wf e" "keys_ok m"
  shows "acc_wf (e\<lparr>namespaces := map_put ns m (namespaces e)\<rparr>)"
  using assms by (auto simp: acc_wf_def keys_ok_map_put dest!: map_put_values)

lemma map_wf_entry: "map_wf M \<Longrightarrow> map_of (entries M) acc = Some e \<Longrightarrow> acc_wf e"
  by (auto simp: map_wf_def dest: map_of_SomeD)

lemma acc_wf_ns: "acc_wf e \<Longrightarrow> map_of (namespaces e) ns = Some m \<Longrightarrow> keys_ok m"
  by (auto simp: acc_wf_def dest: map_of_SomeD)

subsection \<open>The interface\<close>

locale write_cache =
  fixes get :: "'s \<Rightarrow> 'k \<Rightarrow> (bool \<times> 'v) option"
    and put :: "'k \<Rightarrow> 'v \<Rightarrow> bool \<Rightarrow> 's \<Rightarrow> int \<times> 's"
    and inv :: "'s \<Rightarrow> bool"
  assumes put_fail: "put k v b s = (r, s') \<Longrightarrow> r < 0 \<Longrightarrow> s' = s"
    and put_get: "inv s \<Longrightarrow> put k v b s = (r, s') \<Longrightarrow> 0 \<le> r \<Longrightarrow>
      get s' = (get s)(k \<mapsto> (b \<or> (case get s k of Some (w, _) \<Rightarrow> w | None \<Rightarrow> False), v))"
    and put_inv: "inv s \<Longrightarrow> put k v b s = (r, s') \<Longrightarrow> inv s'"
begin

lemma put_other: "inv s \<Longrightarrow> put k v b s = (r, s') \<Longrightarrow> k' \<noteq> k \<Longrightarrow> get s' k' = get s k'"
  using put_fail [of k v b s r s'] put_get [of s k v b r s'] by (cases "r < 0") auto

lemma puts_other:
  "inv s \<Longrightarrow> k \<notin> fst ` set ops \<Longrightarrow> get (fold (\<lambda>(k, v, b) s. snd (put k v b s)) ops s) k = get s k \<and>
     inv (fold (\<lambda>(k, v, b) s. snd (put k v b s)) ops s)"
proof (induction ops arbitrary: s)
  case (Cons op ops)
  obtain k' v b where op: "op = (k', v, b)" by (cases op)
  obtain r s' where p: "put k' v b s = (r, s')" by fastforce
  have "inv s'" using Cons.prems(1) p by (rule put_inv)
  moreover have "get s' k = get s k" using put_other [OF Cons.prems(1) p, of k] Cons.prems(2) op by auto
  ultimately show ?case using Cons.IH [of s'] Cons.prems(2) op p by simp
qed simp

lemma read_your_writes:
  assumes "inv s" "put k v b s = (r, s')" "0 \<le> r" "k \<notin> fst ` set ops"
  shows "map_option snd (get (fold (\<lambda>(k, v, b) s. snd (put k v b s)) ops s') k) = Some v"
  using puts_other [OF put_inv [OF assms(1,2)] assms(4)] put_get [OF assms(1-3)] by simp

end

subsection \<open>The cache provides it\<close>

definition cget :: "state_ctx \<Rightarrow> AccountID \<times> blob \<times> blob \<Rightarrow> (bool \<times> blob) option" where
  "cget S = (\<lambda>(acc, ns, key). lookup_state_cache (stateMap S) acc ns key)"

definition cput :: "view_env \<Rightarrow> ledger \<Rightarrow> AccountID \<times> blob \<times> blob \<Rightarrow> blob \<Rightarrow> bool \<Rightarrow> state_ctx \<Rightarrow> int \<times> state_ctx" where
  "cput env L = (\<lambda>(acc, ns, key) bs b S. set_state_cache env L acc ns key bs b S)"

definition elookup :: "acc_entry \<Rightarrow> blob \<Rightarrow> blob \<Rightarrow> (bool \<times> blob) option" where
  "elookup e ns key = (case map_of (namespaces e) ns of None \<Rightarrow> None | Some m \<Rightarrow> map_of m key)"

lemma lookup_entry: "lookup_state_cache M acc ns key = (case map_of (entries M) acc of None \<Rightarrow> None | Some e \<Rightarrow> elookup e ns key)"
  by (simp add: lookup_state_cache_def elookup_def split: option.split)

lemma elookup_put:
  "elookup (e\<lparr>namespaces := map_put ns m nm\<rparr>) ns' key' =
     (if ns' = ns then map_of m key' else case map_of nm ns' of None \<Rightarrow> None | Some m \<Rightarrow> map_of m key')"
  by (simp add: elookup_def)

text \<open>
  What a successful call leaves: one account entry is replaced, the key has the new value, and the counters have
  moved as \<open>spent\<close> and \<open>counted\<close> say.
\<close>

definition new_key :: "state_ctx \<Rightarrow> AccountID \<Rightarrow> blob \<Rightarrow> blob \<Rightarrow> bool" where
  "new_key S acc ns key \<longleftrightarrow> lookup_state_cache (stateMap S) acc ns key = None"

definition entry_at :: "state_ctx \<Rightarrow> AccountID \<Rightarrow> acc_entry option" where
  "entry_at S acc = map_of (entries (stateMap S)) acc"

definition cache_step ::
    "view_env \<Rightarrow> ledger \<Rightarrow> AccountID \<Rightarrow> blob \<Rightarrow> blob \<Rightarrow> blob \<Rightarrow> bool \<Rightarrow> state_ctx \<Rightarrow> state_ctx \<Rightarrow> bool" where
  "cache_step env L acc ns key bs b S S' \<longleftrightarrow>
     (\<exists>e'. entries (stateMap S') = map_put acc e' (entries (stateMap S)) \<and>
       (map_wf (stateMap S) \<longrightarrow> acc_wf e') \<and>
       elookup e' ns key = Some (b \<or> (case lookup_state_cache (stateMap S) acc ns key of Some (w, _) \<Rightarrow> w | None \<Rightarrow> False), bs) \<and>
       (\<forall>ns' key'. (ns', key') \<noteq> (ns, key) \<longrightarrow> elookup e' ns' key' = lookup_state_cache (stateMap S) acc ns' key') \<and>
       (case entry_at S acc of
          None \<Rightarrow> (\<exists>a. map_of (accts L) acc = Some a \<and> availableForReserves e' = reserve_slots env a - 1 \<and>
                    (b \<longrightarrow> reserve_slots env a \<ge> 1))
        | Some e \<Rightarrow> availableForReserves e' = (if b \<and> new_key S acc ns key then availableForReserves e - 1 else availableForReserves e) \<and>
                    (b \<and> new_key S acc ns key \<longrightarrow> availableForReserves e > 0))) \<and>
     modified_entry_count (stateMap S') \<ge> modified_entry_count (stateMap S) + (if b then 1 else 0) \<and>
     (b \<longrightarrow> modified_entry_count (stateMap S) < max_state_modifications)"

lemma new_account_cases:
  assumes "new_account_entry env L acc ns key bs b cn S = (r, S')" "map_of (entries (stateMap S)) acc = None"
    "b \<longrightarrow> modified_entry_count (stateMap S) < max_state_modifications"
  shows "r < 0 \<and> S' = S \<or> r = 1 \<and> cache_step env L acc ns key bs b S S'"
proof (cases "r < 0")
  case True
  with assms(1) show ?thesis by (auto simp: new_account_entry_def Let_def split: option.splits if_splits)
next
  case False
  with assms(1) obtain a n where a: "map_of (accts L) acc = Some a" "r = 1" "b \<longrightarrow> reserve_slots env a \<ge> 1"
    and S': "S' = S\<lparr>stateMap := \<lparr>entries = map_put acc \<lparr>availableForReserves = reserve_slots env a - 1,
        namespaceCount = n, namespaces = [(ns, [(key, (b, bs))])]\<rparr> (entries (stateMap S)),
        modified_entry_count = modified_entry_count (stateMap S) + 1\<rparr>\<rparr>"
    by (auto simp: new_account_entry_def Let_def split: option.splits if_splits)
  have "lookup_state_cache (stateMap S) acc ns' key' = None" for ns' key' using assms(2) by (simp add: lookup_entry)
  with a assms(2,3) show ?thesis
    unfolding cache_step_def S' by (auto simp: elookup_def acc_wf_def entry_at_def)
qed

lemma cache_stepI:
  assumes e: "map_of (entries (stateMap S)) acc = Some e"
    and S': "stateMap S' = \<lparr>entries = map_put acc e' (entries (stateMap S)),
      modified_entry_count = (if b then modified_entry_count (stateMap S) + 1 else modified_entry_count (stateMap S))\<rparr>"
    and wf: "map_wf (stateMap S) \<Longrightarrow> acc_wf e'"
    and nm: "namespaces e' = map_put ns m' (namespaces e)"
    and m': "\<And>key'. map_of m' key' = (if key' = key then
        Some (b \<or> (case elookup e ns key of Some (w, _) \<Rightarrow> w | None \<Rightarrow> False), bs) else elookup e ns key')"
    and av: "availableForReserves e' = (if b \<and> elookup e ns key = None then availableForReserves e - 1 else availableForReserves e)"
      "b \<and> elookup e ns key = None \<Longrightarrow> availableForReserves e > 0"
    and few: "b \<Longrightarrow> modified_entry_count (stateMap S) < max_state_modifications"
  shows "cache_step env L acc ns key bs b S S'"
proof -
  have lk: "lookup_state_cache (stateMap S) acc ns' key' = elookup e ns' key'" for ns' key' using e by (simp add: lookup_entry)
  have el: "elookup e' ns' key' = (if ns' = ns then map_of m' key' else elookup e ns' key')" for ns' key'
    by (simp add: elookup_def nm)
  show ?thesis
    unfolding cache_step_def lk new_key_def entry_at_def e option.case S' HookStateMap.simps
    using wf av few by (intro conjI exI [of _ e']) (auto simp: el m')
qed

lemma set_state_cache_cases:
  assumes "set_state_cache env L acc ns key bs b S = (r, S')"
  shows "r < 0 \<and> S' = S \<or> r = 1 \<and> cache_step env L acc ns key bs b S S'"
proof (cases "b \<and> modified_entry_count (stateMap S) \<ge> max_state_modifications")
  case True
  with assms show ?thesis by (auto simp: set_state_cache_def Let_def)
next
  case few: False
  let ?M = "stateMap S"
  show ?thesis
  proof (cases "map_of (entries ?M) acc")
    case None
    with assms few have "new_account_entry env L acc ns key bs b (fixXahauV1 env \<and> \<not> dirExists acc ns L) S = (r, S')"
      by (simp add: set_state_cache_def Let_def)
    then show ?thesis by (rule new_account_cases) (use None few in auto)
  next
    case (Some e)
    have lk: "lookup_state_cache ?M acc ns' key' = elookup e ns' key'" for ns' key' using Some by (simp add: lookup_entry)
    have wf: "map_wf ?M \<Longrightarrow> acc_wf e" using Some by (rule map_wf_entry [rotated])
    show ?thesis
    proof (cases "map_of (namespaces e) ns")
      case None
      then have nk: "elookup e ns key' = None" for key' by (simp add: elookup_def)
      show ?thesis
      proof (cases "r < 0")
        case True
        with assms few Some None show ?thesis by (auto simp: set_state_cache_def Let_def split: if_splits)
      next
        case False
        define e0 where "e0 = (if b \<and> fixXahauV1 env \<and> \<not> dirExists acc ns L then e\<lparr>namespaceCount := namespaceCount e + 1\<rparr> else e)"
        have e0: "namespaces e0 = namespaces e" "availableForReserves e0 = availableForReserves e" by (simp_all add: e0_def)
        from False assms few Some None have r: "r = 1" "b \<longrightarrow> availableForReserves e > 0"
          and S': "stateMap S' = \<lparr>entries = map_put acc ((if b then e0\<lparr>availableForReserves := availableForReserves e0 - 1\<rparr> else e0)
                \<lparr>namespaces := map_put ns [(key, (b, bs))] (namespaces e0)\<rparr>) (entries ?M),
              modified_entry_count = (if b then modified_entry_count ?M + 1 else modified_entry_count ?M)\<rparr>"
          by (cases b; auto simp: set_state_cache_def Let_def e0_def split: if_splits)+
        have w0: "acc_wf (e0\<lparr>availableForReserves := k, namespaces := map_put ns [(key, (b, bs))] (namespaces e)\<rparr>)"
          "acc_wf (e0\<lparr>namespaces := map_put ns [(key, (b, bs))] (namespaces e)\<rparr>)" if "map_wf ?M" for k
          using acc_wf_put [OF wf [OF that], of "[(key, (b, bs))]" ns] by (simp_all add: acc_wf_def)
        have "cache_step env L acc ns key bs b S S'"
          by (rule cache_stepI [OF Some S', where m' = "[(key, (b, bs))]"]) (use r few nk w0 e0 in \<open>auto split: if_splits\<close>)
        with r show ?thesis by blast
      qed
    next
      case m: (Some m)
      have el: "elookup e ns key' = map_of m key'" for key' using m by (simp add: elookup_def)
      have ns_wf: "keys_ok (map_put key v m)" if "map_wf ?M" for v
        using acc_wf_ns [OF wf [OF that] m] by (rule keys_ok_map_put)
      show ?thesis
      proof (cases "map_of m key")
        case None
        show ?thesis
        proof (cases "r < 0")
          case True
          with assms few Some m None show ?thesis by (auto simp: set_state_cache_def Let_def split: if_splits)
        next
          case False
          with assms few Some m None have r: "r = 1" "b \<longrightarrow> availableForReserves e > 0"
            and S': "stateMap S' = \<lparr>entries = map_put acc ((if b then e\<lparr>availableForReserves := availableForReserves e - 1\<rparr> else e)
                  \<lparr>namespaces := map_put ns (map_put key (b, bs) m) (namespaces e)\<rparr>) (entries ?M),
                modified_entry_count = (if b then modified_entry_count ?M + 1 else modified_entry_count ?M)\<rparr>"
            by (cases b; auto simp: set_state_cache_def Let_def split: if_splits)+
          have w: "acc_wf (e\<lparr>availableForReserves := k, namespaces := map_put ns (map_put key (b, bs) m) (namespaces e)\<rparr>)"
            "acc_wf (e\<lparr>namespaces := map_put ns (map_put key (b, bs) m) (namespaces e)\<rparr>)" if "map_wf ?M" for k
            using acc_wf_put [OF wf [OF that] ns_wf [OF that, of "(b, bs)"], of ns] by (simp_all add: acc_wf_def)
          have "cache_step env L acc ns key bs b S S'"
            by (rule cache_stepI [OF Some S', where m' = "map_put key (b, bs) m"]) (use r few None el w in \<open>auto split: if_splits\<close>)
          with r show ?thesis by blast
        qed
      next
        case (Some v)
        obtain w bs' where v: "v = (w, bs')" by (cases v)
        from assms few \<open>map_of (entries ?M) acc = Some e\<close> m Some v have r: "r = 1"
          and S': "stateMap S' = \<lparr>entries = map_put acc (e\<lparr>namespaces := map_put ns (map_put key (w \<or> b, bs) m) (namespaces e)\<rparr>) (entries ?M),
                modified_entry_count = (if b then modified_entry_count ?M + 1 else modified_entry_count ?M)\<rparr>"
          by (auto simp: set_state_cache_def Let_def split: if_splits)
        have "cache_step env L acc ns key bs b S S'"
          by (rule cache_stepI [OF \<open>map_of (entries ?M) acc = Some e\<close> S', where m' = "map_put key (w \<or> b, bs) m"])
             (use few Some v el acc_wf_put [OF wf ns_wf [of "(w \<or> b, bs)"], of ns] in \<open>auto split: if_splits\<close>)
        with r show ?thesis by blast
      qed
    qed
  qed
qed

lemma cache_step_get:
  assumes "cache_step env L acc ns key bs b S S'"
  shows "cget S' = (cget S)((acc, ns, key) \<mapsto>
    (b \<or> (case cget S (acc, ns, key) of Some (w, _) \<Rightarrow> w | None \<Rightarrow> False), bs))"
proof -
  obtain e' where e': "entries (stateMap S') = map_put acc e' (entries (stateMap S))"
    "elookup e' ns key = Some (b \<or> (case lookup_state_cache (stateMap S) acc ns key of Some (w, _) \<Rightarrow> w | None \<Rightarrow> False), bs)"
    "\<And>ns' key'. (ns', key') \<noteq> (ns, key) \<Longrightarrow> elookup e' ns' key' = lookup_state_cache (stateMap S) acc ns' key'"
    using assms unfolding cache_step_def by blast
  have "lookup_state_cache (stateMap S') acc' ns' key' =
      (if acc' = acc then elookup e' ns' key' else lookup_state_cache (stateMap S) acc' ns' key')" for acc' ns' key'
    by (simp add: lookup_entry e'(1))
  then show ?thesis using e'(2,3) by (fastforce simp: cget_def fun_eq_iff)
qed

lemma cache_step_wf: "cache_step env L acc ns key bs b S S' \<Longrightarrow> map_wf (stateMap S) \<Longrightarrow> map_wf (stateMap S')"
  unfolding cache_step_def using map_wf_put by (metis (full_types) HookStateMap.surjective old.unit.exhaust)

interpretation sc: write_cache cget "cput env L" "\<lambda>S. map_wf (stateMap S)" for env L
proof
  fix k v b s r s'
  assume p: "cput env L k v b s = (r, s')"
  obtain acc ns key where k: "k = (acc, ns, key)" by (cases k)
  have c: "r < 0 \<and> s' = s \<or> r = 1 \<and> cache_step env L acc ns key v b s s'"
    using p set_state_cache_cases unfolding cput_def k by simp
  show "r < 0 \<Longrightarrow> s' = s" using c by auto
  show "map_wf (stateMap s) \<Longrightarrow> map_wf (stateMap s')" using c cache_step_wf by blast
  show "0 \<le> r \<Longrightarrow> cget s' = (cget s)(k \<mapsto> (b \<or> (case cget s k of Some (w, _) \<Rightarrow> w | None \<Rightarrow> False), v))"
    using c cache_step_get k by (auto simp del: fun_upd_apply)
qed

text \<open>
  A hook reads what was written. After a successful write to the cache, and any number of later reads and writes
  of other keys, successful or not, by whatever hook, a lookup of the key finds the value that was written.
\<close>

theorem state_read_your_writes:
  assumes "map_wf (stateMap S)" "set_state_cache env L acc ns key bs b S = (r, S')" "0 \<le> r"
    "(acc, ns, key) \<notin> fst ` set ops"
  shows "map_option snd (cget (fold (\<lambda>(k, v, b) S. snd (cput env L k v b S)) ops S') (acc, ns, key)) = Some bs"
  by (rule sc.read_your_writes [where r = r and b = b]) (use assms in \<open>simp_all add: cput_def\<close>)

definition example_ledger :: ledger where
  "example_ledger = \<lparr>accts = [([1], \<lparr>Balance = 100, OwnerCount = 0, HookStateCount = 0, HookNamespaces = None\<rparr>)],
     hookStates = [], stateDirs = []\<rparr>"

definition example_env :: view_env where
  "example_env = \<lparr>reserve = 10, increment = 5, fixXahauV1 = True, dir_full = (\<lambda>_ _. False)\<rparr>"

definition empty_ctx :: state_ctx where
  "empty_ctx = \<lparr>stateMap = \<lparr>entries = [], modified_entry_count = 0\<rparr>, changedStateCount = 0, foreignStateSetDisabled = False\<rparr>"

lemma map_wf_empty: "map_wf (stateMap empty_ctx)"
  by (simp add: map_wf_def empty_ctx_def)

theorem state_read_your_writes_witness:
  "map_option snd (cget (fold (\<lambda>(k, v, b) S. snd (cput example_env example_ledger k v b S)) [(([1], [2], [4]), [6], True)]
     (snd (set_state_cache example_env example_ledger [1] [2] [3] [5] True empty_ctx))) ([1], [2], [3])) = Some [5]"
proof (rule state_read_your_writes [OF map_wf_empty])
  show "set_state_cache example_env example_ledger [1] [2] [3] [5] True empty_ctx =
    (1, snd (set_state_cache example_env example_ledger [1] [2] [3] [5] True empty_ctx))"
    by (simp add: set_state_cache_def new_account_entry_def empty_ctx_def example_ledger_def example_env_def
        reserve_slots_def accountReserve_def max_state_modifications_def maxNamespaces_def dirExists_def)
qed simp_all

end
