(* ===== verification/Hook_State_Commit.thy ===== *)
theory Hook_State_Commit
  imports Hook_State_Cache
begin

text \<open>
  From the cache to the ledger: the invariant of a transaction's hook state, that writing one entry to the ledger
  succeeds when the reserve was there, and that the commit writes what the hooks have seen last.
\<close>

subsection \<open>The order of the commit\<close>

lemma map_of_pair_keys: "map_of (map (\<lambda>(b, v). ((a', b), v)) xs) (a, b) = (if a = a' then map_of xs b else None)"
  by (induction xs) auto

lemma map_of_nested:
  "distinct (map fst m) \<Longrightarrow>
   map_of (concat (map (\<lambda>(a, e). map (\<lambda>(b, v). ((a, b), v)) (f e)) m)) (a, b) =
     (case map_of m a of None \<Rightarrow> None | Some e \<Rightarrow> map_of (f e) b)"
proof (induction m)
  case (Cons p m)
  obtain a' e where p: "p = (a', e)" by (cases p)
  have "map_of m a' = None" using Cons.prems p by (simp add: map_of_eq_None_iff)
  with Cons p show ?case by (auto simp: map_of_append map_add_def map_of_pair_keys split: option.split)
qed simp

lemma distinct_nested:
  "distinct (map fst m) \<Longrightarrow> (\<And>a e. (a, e) \<in> set m \<Longrightarrow> distinct (map fst (f e))) \<Longrightarrow>
   distinct (map fst (concat (map (\<lambda>(a, e). map (\<lambda>(b, v). ((a, b), v)) (f e)) m)))"
proof (induction m)
  case (Cons p m)
  obtain a' e where p: "p = (a', e)" by (cases p)
  let ?X = "map (\<lambda>(b, v). ((a', b), v)) (f e)" and ?Y = "concat (map (\<lambda>(a, e). map (\<lambda>(b, v). ((a, b), v)) (f e)) m)"
  have "map fst ?X = map (Pair a') (map fst (f e))" by (simp add: comp_def split_beta)
  then have "distinct (map fst ?X)"
    using Cons.prems(2) [of a' e] p by (simp add: distinct_map inj_on_def del: map_map)
  moreover have "distinct (map fst ?Y)" by (rule Cons.IH) (use Cons.prems in auto)
  moreover have "a \<noteq> a'" if "((a, b), v) \<in> set ?Y" for a b v
    using that Cons.prems(1) p by (auto simp: image_iff)
  then have "set (map fst ?X) \<inter> set (map fst ?Y) = {}" by fastforce
  ultimately show ?case
    unfolding p list.map concat.simps map_append distinct_append prod.case by blast
qed simp

definition ns_items :: "acc_entry \<Rightarrow> ((blob \<times> blob) \<times> bool \<times> blob) list" where
  "ns_items e = concat (map (\<lambda>(ns, m). map (\<lambda>(key, v). ((ns, key), v)) m) (namespaces e))"

lemma cache_items_nested:
  "cache_items M = concat (map (\<lambda>(acc, e). map (\<lambda>(nk, v). ((acc, nk), v)) (ns_items e)) (entries M))"
proof -
  have "map (\<lambda>(nk, v). ((acc, nk), v)) (ns_items e) =
      concat (map (\<lambda>(ns, m). map (\<lambda>(key, v). ((acc, ns, key), v)) m) (namespaces e))" for acc :: AccountID and e
    by (simp add: ns_items_def map_concat comp_def case_prod_unfold)
  then show ?thesis by (simp only: cache_items_def)
qed

lemma cache_items_get:
  assumes "map_wf (stateMap S)"
  shows "map_of (cache_items (stateMap S)) = cget S" "distinct (map fst (cache_items (stateMap S)))"
proof -
  have d: "distinct (map fst (entries (stateMap S)))" using assms by (auto simp: map_wf_def keys_ok_distinct)
  have dn: "distinct (map fst (namespaces e))" "\<And>ns m. (ns, m) \<in> set (namespaces e) \<Longrightarrow> distinct (map fst m)"
    if "acc_wf e" for e using that by (auto simp: acc_wf_def keys_ok_distinct)
  have wf: "(acc, e) \<in> set (entries (stateMap S)) \<Longrightarrow> acc_wf e" for acc e using assms by (auto simp: map_wf_def)
  show "distinct (map fst (cache_items (stateMap S)))"
    unfolding cache_items_nested
    by (rule distinct_nested [OF d]) (auto simp: ns_items_def intro!: distinct_nested dn wf)
  have "map_of (cache_items (stateMap S)) (acc, ns, key) = cget S (acc, ns, key)" for acc ns key
  proof -
    have "map_of (ns_items e) (ns, key) = elookup e ns key" if "map_of (entries (stateMap S)) acc = Some e" for e
      using dn(1) wf map_of_SomeD [OF that] unfolding ns_items_def by (simp add: map_of_nested elookup_def)
    then show ?thesis
      unfolding cache_items_nested map_of_nested [OF d] by (auto simp: cget_def lookup_entry split: option.split)
  qed
  then show "map_of (cache_items (stateMap S)) = cget S" by (auto simp: fun_eq_iff)
qed

lemma finite_cget: "map_wf (stateMap S) \<Longrightarrow> finite (dom (cget S))"
  using cache_items_get(1) finite_dom_map_of by metis

subsection \<open>The invariant of a transaction\<close>

definition modified_keys :: "state_ctx \<Rightarrow> (AccountID \<times> blob \<times> blob) set" where
  "modified_keys S = {k. \<exists>bs. cget S k = Some (True, bs)}"

text \<open>The modified entries of an account that the ledger does not have yet: each will need a reserve.\<close>

definition fresh_keys :: "ledger \<Rightarrow> state_ctx \<Rightarrow> AccountID \<Rightarrow> (AccountID \<times> blob \<times> blob) set" where
  "fresh_keys L S acc = {k \<in> modified_keys S. fst k = acc \<and> map_of (hookStates L) k = None}"

definition slots_ok :: "view_env \<Rightarrow> ledger \<Rightarrow> state_ctx \<Rightarrow> bool" where
  "slots_ok env L S \<longleftrightarrow> (\<forall>acc e. entry_at S acc = Some e \<longrightarrow>
     (\<exists>a. map_of (accts L) acc = Some a \<and> (fresh_keys L S acc = {} \<or> 0 \<le> availableForReserves e) \<and>
       availableForReserves e + int (card (fresh_keys L S acc)) \<le> reserve_slots env a))"

definition cache_inv :: "view_env \<Rightarrow> ledger \<Rightarrow> state_ctx \<Rightarrow> bool" where
  "cache_inv env L S \<longleftrightarrow> map_wf (stateMap S) \<and>
     (\<forall>k bs. cget S k = Some (False, bs) \<longrightarrow> map_of (hookStates L) k = Some bs) \<and>
     (\<forall>k bs. cget S k = Some (True, bs) \<longrightarrow> length bs \<le> 256) \<and>
     slots_ok env L S \<and>
     int (card (modified_keys S)) \<le> modified_entry_count (stateMap S) \<and> card (modified_keys S) \<le> 256"

lemma cache_inv_empty: "cache_inv env L empty_ctx"
  by (simp add: cache_inv_def map_wf_def cget_def empty_ctx_def lookup_state_cache_def modified_keys_def slots_ok_def
      entry_at_def)

lemma modified_keys_finite: "map_wf (stateMap S) \<Longrightarrow> finite (modified_keys S)"
  by (rule finite_subset [OF _ finite_cget [of S]]) (auto simp: modified_keys_def)

lemma fresh_keys_finite: "map_wf (stateMap S) \<Longrightarrow> finite (fresh_keys L S acc)"
  by (rule finite_subset [OF _ modified_keys_finite]) (auto simp: fresh_keys_def)

lemma cget_cong: "stateMap S = stateMap S' \<Longrightarrow> cget S = cget S'"
  by (simp add: cget_def)

lemma cache_inv_cong: "stateMap S = stateMap S' \<Longrightarrow> cache_inv env L S = cache_inv env L S'"
  using cget_cong [of S S'] by (simp add: cache_inv_def slots_ok_def entry_at_def fresh_keys_def modified_keys_def)

lemma modified_keys_step:
  assumes "cache_step env L acc ns key bs b S S'"
  shows "modified_keys S' = (if b then insert (acc, ns, key) (modified_keys S) else modified_keys S)"
  unfolding modified_keys_def cache_step_get [OF assms] by (auto split: option.splits)

lemma slots_ok_step:
  assumes inv: "cache_inv env L S" and st: "cache_step env L acc ns key bs b S S'"
  shows "slots_ok env L S'"
  unfolding slots_ok_def
proof (intro allI impI)
  fix acc' e2
  assume e2: "entry_at S' acc' = Some e2"
  let ?k = "(acc, ns, key)"
  obtain e' where e': "entries (stateMap S') = map_put acc e' (entries (stateMap S))"
    and av: "case entry_at S acc of
          None \<Rightarrow> (\<exists>a. map_of (accts L) acc = Some a \<and> availableForReserves e' = reserve_slots env a - 1 \<and>
                    (b \<longrightarrow> reserve_slots env a \<ge> 1))
        | Some e \<Rightarrow> availableForReserves e' = (if b \<and> new_key S acc ns key then availableForReserves e - 1 else availableForReserves e) \<and>
                    (b \<and> new_key S acc ns key \<longrightarrow> availableForReserves e > 0)"
    using st unfolding cache_step_def by blast
  note mk = modified_keys_step [OF st]
  have fin: "finite (fresh_keys L S acc)" using inv by (simp add: cache_inv_def fresh_keys_finite)
  have sl: "slots_ok env L S" using inv by (simp add: cache_inv_def)
  show "\<exists>a. map_of (accts L) acc' = Some a \<and> (fresh_keys L S' acc' = {} \<or> 0 \<le> availableForReserves e2) \<and>
       availableForReserves e2 + int (card (fresh_keys L S' acc')) \<le> reserve_slots env a"
  proof (cases "acc' = acc")
    case False
    then have "fresh_keys L S' acc' = fresh_keys L S acc'" by (auto simp: fresh_keys_def mk split: if_splits)
    moreover have "entry_at S acc' = Some e2" using e2 e' False by (simp add: entry_at_def)
    ultimately show ?thesis using sl by (simp add: slots_ok_def)
  next
    case True
    have e2: "e2 = e'" using e2 e' True by (simp add: entry_at_def)
    have sub: "fresh_keys L S' acc \<subseteq> insert ?k (fresh_keys L S acc)" by (auto simp: fresh_keys_def mk split: if_splits)
    have same: "fresh_keys L S' acc = fresh_keys L S acc" if "\<not> (b \<and> new_key S acc ns key)"
    proof (cases b)
      case True
      with that obtain w bs' where "cget S ?k = Some (w, bs')" by (auto simp: new_key_def cget_def)
      then have "?k \<in> modified_keys S \<or> map_of (hookStates L) ?k \<noteq> None"
        using inv by (cases w) (auto simp: modified_keys_def cache_inv_def)
      then show ?thesis by (auto simp: fresh_keys_def mk)
    qed (simp add: fresh_keys_def mk)
    have card: "card (fresh_keys L S' acc) \<le> card (fresh_keys L S acc) + 1"
    proof -
      have "card (fresh_keys L S' acc) \<le> card (insert ?k (fresh_keys L S acc))" using fin sub by (intro card_mono) auto
      also have "\<dots> \<le> card (fresh_keys L S acc) + 1" using fin by (simp add: card_insert_if)
      finally show ?thesis .
    qed
    show ?thesis
    proof (cases "entry_at S acc")
      case None
      have "fresh_keys L S acc = {}"
        using None by (auto simp: fresh_keys_def modified_keys_def cget_def lookup_entry entry_at_def)
      moreover from None av obtain a where "map_of (accts L) acc = Some a" "availableForReserves e' = reserve_slots env a - 1"
        "b \<longrightarrow> reserve_slots env a \<ge> 1" by auto
      ultimately show ?thesis using True e2 card same by (cases b) auto
    next
      case (Some e)
      with sl obtain a where a: "map_of (accts L) acc = Some a" "fresh_keys L S acc = {} \<or> 0 \<le> availableForReserves e"
        "availableForReserves e + int (card (fresh_keys L S acc)) \<le> reserve_slots env a"
        unfolding slots_ok_def by blast
      show ?thesis
      proof (cases "b \<and> new_key S acc ns key")
        case True
        with av Some have "availableForReserves e' = availableForReserves e - 1" "availableForReserves e > 0" by auto
        with a card show ?thesis using \<open>acc' = acc\<close> e2 by auto
      next
        case False
        with av Some have "availableForReserves e' = availableForReserves e" by auto
        with a same [OF False] show ?thesis using \<open>acc' = acc\<close> e2 by auto
      qed
    qed
  qed
qed

lemma cache_inv_step:
  assumes inv: "cache_inv env L S" and st: "cache_step env L acc ns key bs b S S'"
    and w: "b \<Longrightarrow> length bs \<le> 256" and r: "\<not> b \<Longrightarrow> cget S (acc, ns, key) = None \<and> map_of (hookStates L) (acc, ns, key) = Some bs"
  shows "cache_inv env L S'"
proof -
  let ?k = "(acc, ns, key)"
  note g = cache_step_get [OF st] and mk = modified_keys_step [OF st]
  have wf: "map_wf (stateMap S)" using inv by (simp add: cache_inv_def)
  have fin: "finite (modified_keys S)" by (rule modified_keys_finite [OF wf])
  have cnt: "int (card (modified_keys S)) \<le> modified_entry_count (stateMap S)" "card (modified_keys S) \<le> 256"
    using inv by (auto simp: cache_inv_def)
  have up: "modified_entry_count (stateMap S) + (if b then 1 else 0) \<le> modified_entry_count (stateMap S')"
    "b \<Longrightarrow> modified_entry_count (stateMap S) < 256" using st by (auto simp: cache_step_def max_state_modifications_def)
  have old: "cget S k = Some (False, d) \<Longrightarrow> map_of (hookStates L) k = Some d" "cget S k = Some (True, d) \<Longrightarrow> length d \<le> 256" for k d
    using inv unfolding cache_inv_def by blast+
  have "map_of (hookStates L) k = Some d" if "cget S' k = Some (False, d)" for k d
    using that r old(1) by (cases "k = ?k") (auto simp: g)
  moreover have "length d \<le> 256" if "cget S' k = Some (True, d)" for k d
    using that w r old(2) by (cases "k = ?k"; cases b) (auto simp: g)
  moreover have "card (modified_keys S') \<le> card (modified_keys S) + (if b then 1 else 0)"
    using fin by (simp add: mk card_insert_if)
  then have "int (card (modified_keys S')) \<le> modified_entry_count (stateMap S')" "card (modified_keys S') \<le> 256"
    using cnt up by (cases b; auto)+
  ultimately show ?thesis
    using cache_step_wf [OF st wf] slots_ok_step [OF inv st] by (simp add: cache_inv_def)
qed

subsection \<open>Writing one entry\<close>

definition ledger_ok :: "ledger \<Rightarrow> bool" where
  "ledger_ok L \<longleftrightarrow>
     (\<forall>acc ns key bs. map_of (hookStates L) (acc, ns, key) = Some bs \<longrightarrow>
        bs \<noteq> [] \<and> (\<exists>ks. map_of (stateDirs L) (acc, ns) = Some ks \<and> key \<in> set ks) \<and> map_of (accts L) acc \<noteq> None) \<and>
     (\<forall>acc a. map_of (accts L) acc = Some a \<longrightarrow> 0 \<le> OwnerCount a \<and> 0 \<le> HookStateCount a)"

lemma map_of_update [simp]: "map_of (AList.update k v m) = (map_of m)(k \<mapsto> v)"
  and map_of_delete [simp]: "map_of (AList.delete k m) = (map_of m)(k := None)"
  by (simp_all add: update_conv' delete_conv')

text \<open>What a successful write does: the entry, and at most one more owned object for its account.\<close>

definition wrote :: "AccountID \<Rightarrow> blob \<Rightarrow> blob \<Rightarrow> blob \<Rightarrow> ledger \<Rightarrow> ledger \<Rightarrow> bool" where
  "wrote acc ns key bs L L' \<longleftrightarrow> ledger_ok L' \<and>
     map_of (hookStates L') = (map_of (hookStates L))((acc, ns, key) := if bs = [] then None else Some bs) \<and>
     (\<forall>acc'. acc' \<noteq> acc \<longrightarrow> map_of (accts L') acc' = map_of (accts L) acc') \<and>
     (\<forall>a. map_of (accts L) acc = Some a \<longrightarrow> (\<exists>a'. map_of (accts L') acc = Some a' \<and> Balance a' = Balance a \<and>
        (let d = (if bs \<noteq> [] \<and> map_of (hookStates L) (acc, ns, key) = None then 1 else 0) in
         OwnerCount a' \<le> OwnerCount a + d \<and> HookStateCount a' \<le> HookStateCount a + d)))"

lemma deleteHookState_ok:
  assumes ok: "ledger_ok L" and a: "map_of (accts L) acc = Some a" and c: "OwnerCount a < 2 ^ 32" "HookStateCount a < 2 ^ 32"
  shows "\<exists>L'. deleteHookState acc a ns key L = (tesSUCCESS, L') \<and> wrote acc ns key [] L L'"
proof (cases "map_of (hookStates L) (acc, ns, key)")
  case None
  then have "(map_of (hookStates L))((acc, ns, key) := None) = map_of (hookStates L)" by auto
  with None ok show ?thesis by (simp add: deleteHookState_def wrote_def)
next
  case (Some bs)
  with ok obtain ks where ks: "map_of (stateDirs L) (acc, ns) = Some ks" "key \<in> set ks"
    unfolding ledger_ok_def by blast
  define D where "D = (if remove1 key ks = [] then AList.delete (acc, ns) (stateDirs L)
    else AList.update (acc, ns) (remove1 key ks) (stateDirs L))"
  have rm: "dirRemove acc ns key L = Some (L\<lparr>stateDirs := D\<rparr>)" using ks by (simp add: dirRemove_def D_def Let_def)
  have oc: "0 \<le> OwnerCount a" "0 \<le> HookStateCount a" using ok a by (auto simp: ledger_ok_def)
  obtain a' where del: "deleteHookState acc a ns key L =
      (tesSUCCESS, put_acct acc a' (L\<lparr>stateDirs := D, hookStates := AList.delete (acc, ns, key) (hookStates L)\<rparr>))"
    and a': "Balance a' = Balance a" "0 \<le> OwnerCount a'" "0 \<le> HookStateCount a'" "OwnerCount a' \<le> OwnerCount a"
      "HookStateCount a' \<le> HookStateCount a"
  proof -
    have cf: "0 \<le> confineOwnerCount (OwnerCount a) (- 1)" "confineOwnerCount (OwnerCount a) (- 1) \<le> OwnerCount a"
      using oc(1) u32_range [of "OwnerCount a - 1"] by (auto simp: confineOwnerCount_def Let_def)
    show ?thesis
      using that Some ks(1) rm oc cf
      by (auto simp: deleteHookState_def dirExists_def Let_def adjustOwnerCount_def computeHookStateOwnerCount_def)
  qed
  let ?L = "put_acct acc a' (L\<lparr>stateDirs := D, hookStates := AList.delete (acc, ns, key) (hookStates L)\<rparr>)"
  have dirs: "\<exists>ks. map_of D (acc', ns') = Some ks \<and> key' \<in> set ks"
    if h: "map_of (hookStates L) (acc', ns', key') = Some d" and ne: "(acc', ns', key') \<noteq> (acc, ns, key)" for acc' ns' key' d
  proof -
    obtain ks' where ks': "map_of (stateDirs L) (acc', ns') = Some ks'" "key' \<in> set ks'"
      using ok h unfolding ledger_ok_def by blast
    show ?thesis
    proof (cases "(acc', ns') = (acc, ns)")
      case True
      then have "key' \<in> set (remove1 key ks)" using ks ks' ne by auto
      then show ?thesis using True by (auto simp: D_def)
    next
      case False
      then show ?thesis using ks' by (auto simp: D_def)
    qed
  qed
  have "ledger_ok ?L"
    using ok dirs a' unfolding ledger_ok_def put_acct_def by (auto split: if_splits)
  then have "wrote acc ns key [] L ?L" using a a' by (simp add: wrote_def put_acct_def)
  with del show ?thesis by blast
qed

lemma createHookState_ok:
  assumes ok: "ledger_ok L" and a: "map_of (accts L) acc = Some a" and none: "map_of (hookStates L) (acc, ns, key) = None"
    and c: "OwnerCount a + 1 < 2 ^ 32" "HookStateCount a + 1 < 2 ^ 32" and full: "\<not> dir_full env acc ns" and bs: "bs \<noteq> []"
    and bal: "accountReserve env (OwnerCount a + 1) \<le> Balance a"
  shows "\<exists>L'. createHookState env acc a ns key bs L = (tesSUCCESS, L') \<and> wrote acc ns key bs L L'"
proof -
  have oc: "0 \<le> OwnerCount a" "0 \<le> HookStateCount a" using ok a by (auto simp: ledger_ok_def)
  define D where "D = AList.update (acc, ns) ((case map_of (stateDirs L) (acc, ns) of None \<Rightarrow> [] | Some ks \<Rightarrow> ks) @ [key]) (stateDirs L)"
  define a1 where "a1 = a\<lparr>OwnerCount := OwnerCount a + 1, HookStateCount := HookStateCount a + 1\<rparr>"
  define a' where "a' = (if dirExists acc ns L then a1 else a1\<lparr>HookNamespaces := snd (addHookNamespaceEntry (HookNamespaces a1) ns)\<rparr>)"
  define A where "A = (if dirExists acc ns L then AList.update acc a1 (accts L) else AList.update acc a' (AList.update acc a1 (accts L)))"
  have cr: "createHookState env acc a ns key bs L =
      (tesSUCCESS, L\<lparr>accts := A, stateDirs := D, hookStates := AList.update (acc, ns, key) bs (hookStates L)\<rparr>)"
    using oc c bal full
    by (simp add: createHookState_def computeHookStateOwnerCount_def Let_def adjustOwnerCount_def confineOwnerCount_def
        dirInsert_def put_acct_def dirExists_def D_def A_def a'_def a1_def)
  have A: "map_of A = (map_of (accts L))(acc \<mapsto> a')" "Balance a' = Balance a" "OwnerCount a' = OwnerCount a + 1"
      "HookStateCount a' = HookStateCount a + 1"
    by (simp_all add: A_def a'_def a1_def)
  let ?L = "L\<lparr>accts := A, stateDirs := D, hookStates := AList.update (acc, ns, key) bs (hookStates L)\<rparr>"
  have dirs: "\<exists>ks. map_of D (acc', ns') = Some ks \<and> key' \<in> set ks"
    if "map_of (hookStates L) (acc', ns', key') = Some d \<or> (acc', ns', key') = (acc, ns, key)" for acc' ns' key' d
  proof (cases "(acc', ns') = (acc, ns)")
    case True
    then have "key' \<in> set ((case map_of (stateDirs L) (acc, ns) of None \<Rightarrow> [] | Some ks \<Rightarrow> ks) @ [key])"
      using that ok [unfolded ledger_ok_def, THEN conjunct1, rule_format, of acc ns key' d] by (auto split: option.split)
    then show ?thesis using True by (simp add: D_def)
  next
    case False
    then show ?thesis using that ok unfolding ledger_ok_def D_def by auto
  qed
  have "ledger_ok ?L"
    using ok dirs A oc bs unfolding ledger_ok_def by (auto split: if_splits)
  then have "wrote acc ns key bs L ?L" using a A bs none by (simp add: wrote_def)
  with cr show ?thesis by blast
qed

lemma setHookState_ok:
  assumes ok: "ledger_ok L" and a: "map_of (accts L) acc = Some a" and len: "length bs \<le> 256"
    and c: "OwnerCount a + 1 < 2 ^ 32" "HookStateCount a + 1 < 2 ^ 32" and full: "\<not> dir_full env acc ns"
    and bal: "map_of (hookStates L) (acc, ns, key) = None \<Longrightarrow> accountReserve env (OwnerCount a + 1) \<le> Balance a"
  shows "\<exists>L'. setHookState env acc ns key bs L = (tesSUCCESS, L') \<and> wrote acc ns key bs L L'"
proof -
  have "\<not> int (length bs) > maxHookStateDataSize" using len by (simp add: maxHookStateDataSize_def)
  moreover have "wrote acc ns key bs L (L\<lparr>hookStates := AList.update (acc, ns, key) bs (hookStates L)\<rparr>)"
    if "bs \<noteq> []" "map_of (hookStates L) (acc, ns, key) \<noteq> None"
    using ok a that by (auto simp: wrote_def ledger_ok_def)
  ultimately show ?thesis
    using deleteHookState_ok [OF ok a, of ns key] createHookState_ok [OF ok a _ c full] bal a c
    by (auto simp: setHookState_def)
qed

subsection \<open>The commit\<close>

definition mods :: "cache_item list \<Rightarrow> nat" where
  "mods items = length (filter (\<lambda>(k, b, bs). b) items)"

definition fresh_items :: "ledger \<Rightarrow> AccountID \<Rightarrow> cache_item list \<Rightarrow> (AccountID \<times> blob \<times> blob) set" where
  "fresh_items L acc items = {k. fst k = acc \<and> map_of (hookStates L) k = None \<and> (\<exists>bs. (k, True, bs) \<in> set items)}"

lemma fresh_items_finite: "finite (fresh_items L acc items)"
  by (rule finite_subset [of _ "fst ` set items"]) (force simp: fresh_items_def)+

text \<open>What the commit needs of an account: room in the two counters, and the reserve of the entries that are new.\<close>

definition acct_can :: "view_env \<Rightarrow> ledger \<Rightarrow> cache_item list \<Rightarrow> AccountID \<Rightarrow> acct_root \<Rightarrow> bool" where
  "acct_can env L items acc a \<longleftrightarrow>
     OwnerCount a + int (mods items) < 2 ^ 32 \<and> HookStateCount a + int (mods items) < 2 ^ 32 \<and>
     (fresh_items L acc items \<noteq> {} \<longrightarrow> accountReserve env (OwnerCount a + int (card (fresh_items L acc items))) \<le> Balance a)"

definition can_commit :: "view_env \<Rightarrow> ledger \<Rightarrow> cache_item list \<Rightarrow> bool" where
  "can_commit env L items \<longleftrightarrow> ledger_ok L \<and> distinct (map fst items) \<and>
     (\<forall>acc ns key bs. ((acc, ns, key), True, bs) \<in> set items \<longrightarrow>
        length bs \<le> 256 \<and> \<not> dir_full env acc ns \<and> map_of (accts L) acc \<noteq> None) \<and>
     (\<forall>acc a. map_of (accts L) acc = Some a \<longrightarrow> acct_can env L items acc a)"

text \<open>What the ledger should hold once the items are written.\<close>

definition committed :: "ledger \<Rightarrow> cache_item list \<Rightarrow> AccountID \<times> blob \<times> blob \<Rightarrow> blob option" where
  "committed L items k =
     (case map_of items k of
        None \<Rightarrow> map_of (hookStates L) k
      | Some (b, bs) \<Rightarrow> if \<not> b then map_of (hookStates L) k else if bs = [] then None else Some bs)"

lemma committed_cons:
  assumes "k \<notin> fst ` set items"
    and "map_of (hookStates L1) = (map_of (hookStates L))(k := if \<not> b then map_of (hookStates L) k else if bs = [] then None else Some bs)"
  shows "committed L1 items = committed L ((k, b, bs) # items)"
proof
  fix k'
  show "committed L1 items k' = committed L ((k, b, bs) # items) k'"
    using assms by (cases "k' = k") (simp_all add: committed_def map_of_eq_None_iff [THEN iffD2] split: option.split)
qed

lemma accountReserve_mono: "0 \<le> increment env \<Longrightarrow> m \<le> n \<Longrightarrow> accountReserve env m \<le> accountReserve env n"
  by (simp add: accountReserve_def mult_right_mono)

lemma can_commit_skip:
  "can_commit env L ((k, False, bs) # items) \<Longrightarrow> can_commit env L items"
  by (simp add: can_commit_def acct_can_def mods_def fresh_items_def)

lemma acct_can_step:
  assumes can: "acct_can env L (((acc, ns, key), True, bs) # items) acc a" and inc: "0 \<le> increment env"
    and new: "(acc, ns, key) \<notin> fst ` set items"
    and L1: "map_of (hookStates L1) = (map_of (hookStates L))((acc, ns, key) := v)"
    and a': "Balance a' = Balance a" "OwnerCount a' \<le> OwnerCount a + d" "HookStateCount a' \<le> HookStateCount a + d"
    and d: "d = (if bs \<noteq> [] \<and> map_of (hookStates L) (acc, ns, key) = None then 1 else 0)"
  shows "acct_can env L1 items acc a'"
proof -
  let ?k = "(acc, ns, key)" and ?F = "fresh_items L acc (((acc, ns, key), True, bs) # items)"
  have F1: "fresh_items L1 acc items = fresh_items L acc items" using new by (force simp: fresh_items_def L1)
  have nin: "?k \<notin> fresh_items L acc items" using new by (force simp: fresh_items_def)
  have F: "?F = (if map_of (hookStates L) ?k = None then insert ?k (fresh_items L acc items) else fresh_items L acc items)"
    by (auto simp: fresh_items_def)
  have "card ?F = card (fresh_items L acc items) + (if map_of (hookStates L) ?k = None then 1 else 0)"
    unfolding F using nin fresh_items_finite by simp
  then have le: "OwnerCount a' + int (card (fresh_items L1 acc items)) \<le> OwnerCount a + int (card ?F)"
    using a'(2) d unfolding F1 by (auto split: if_splits)
  have "accountReserve env (OwnerCount a + int (card ?F)) \<le> Balance a" if "fresh_items L1 acc items \<noteq> {}"
    using can that unfolding acct_can_def F1 F by (auto split: if_splits)
  then have "fresh_items L1 acc items \<noteq> {} \<longrightarrow>
      accountReserve env (OwnerCount a' + int (card (fresh_items L1 acc items))) \<le> Balance a'"
    using accountReserve_mono [OF inc le] a'(1) by fastforce
  moreover have "OwnerCount a' + int (mods items) < 2 ^ 32" "HookStateCount a' + int (mods items) < 2 ^ 32"
    using can a'(2,3) d by (simp_all add: acct_can_def mods_def split: if_splits)
  ultimately show ?thesis by (simp add: acct_can_def)
qed

lemma can_commit_step:
  assumes can: "can_commit env L (((acc, ns, key), True, bs) # items)" and inc: "0 \<le> increment env"
  shows "\<exists>L1. setHookState env acc ns key bs L = (tesSUCCESS, L1) \<and> can_commit env L1 items \<and>
    committed L1 items = committed L (((acc, ns, key), True, bs) # items)"
proof -
  let ?k = "(acc, ns, key)" and ?I = "((acc, ns, key), True, bs) # items"
  have new: "?k \<notin> fst ` set items" and ok: "ledger_ok L" using can by (auto simp: can_commit_def)
  from can obtain a where a: "map_of (accts L) acc = Some a" and pre: "length bs \<le> 256" "\<not> dir_full env acc ns"
    unfolding can_commit_def by fastforce
  have ca: "acct_can env L ?I acc a" using can a by (simp add: can_commit_def)
  have bal: "accountReserve env (OwnerCount a + 1) \<le> Balance a" if "map_of (hookStates L) ?k = None"
  proof -
    have in_F: "?k \<in> fresh_items L acc ?I" using that by (auto simp: fresh_items_def)
    then have "1 \<le> card (fresh_items L acc ?I)" using fresh_items_finite card_gt_0_iff [of "fresh_items L acc ?I"] by auto
    moreover have "accountReserve env (OwnerCount a + int (card (fresh_items L acc ?I))) \<le> Balance a"
      using ca in_F by (auto simp: acct_can_def)
    ultimately show ?thesis
      using accountReserve_mono [OF inc, of "OwnerCount a + 1" "OwnerCount a + int (card (fresh_items L acc ?I))"] by linarith
  qed
  have "OwnerCount a + 1 < 2 ^ 32" "HookStateCount a + 1 < 2 ^ 32" using ca by (auto simp: acct_can_def mods_def)
  from setHookState_ok [OF ok a pre(1) this pre(2) bal]
  obtain L1 where L1: "setHookState env acc ns key bs L = (tesSUCCESS, L1)" and w: "wrote acc ns key bs L L1" by blast
  have h: "map_of (hookStates L1) = (map_of (hookStates L))(?k := if bs = [] then None else Some bs)"
    and other: "acc' \<noteq> acc \<Longrightarrow> map_of (accts L1) acc' = map_of (accts L) acc'" for acc'
    using w by (auto simp: wrote_def)
  from w a obtain a' where a1: "map_of (accts L1) acc = Some a'" and a': "Balance a' = Balance a"
      "OwnerCount a' \<le> OwnerCount a + (if bs \<noteq> [] \<and> map_of (hookStates L) ?k = None then 1 else 0)"
      "HookStateCount a' \<le> HookStateCount a + (if bs \<noteq> [] \<and> map_of (hookStates L) ?k = None then 1 else 0)"
    unfolding wrote_def Let_def by blast
  have can1: "acct_can env L1 items acc a'" by (rule acct_can_step [OF ca inc new h a' refl])
  have rest: "acct_can env L1 items acc' b" if "acc' \<noteq> acc" "map_of (accts L) acc' = Some b" for acc' b
  proof -
    have "fresh_items L1 acc' items = fresh_items L acc' ?I" using that(1) by (auto simp: fresh_items_def h)
    moreover have "acct_can env L ?I acc' b" using can that(2) by (simp add: can_commit_def)
    ultimately show ?thesis by (simp add: acct_can_def mods_def)
  qed
  have "acct_can env L1 items acc' b" if "map_of (accts L1) acc' = Some b" for acc' b
    using that can1 rest a1 other by (cases "acc' = acc") auto
  moreover have "map_of (accts L1) acc' \<noteq> None" if "map_of (accts L) acc' \<noteq> None" for acc'
    using that a1 other by (cases "acc' = acc") auto
  ultimately have "can_commit env L1 items"
    using can w unfolding can_commit_def wrote_def by fastforce
  moreover have "committed L1 items = committed L ?I"
    using committed_cons [of ?k items L1 L True bs] new h by simp
  ultimately show ?thesis using L1 by blast
qed

lemma commit_items_ok:
  assumes "can_commit env L items" "0 \<le> increment env" "0 \<le> c" "c + int (mods items) \<le> 257"
  shows "\<exists>L'. commit_items env c items L = (tesSUCCESS, L') \<and> map_of (hookStates L') = committed L items \<and> ledger_ok L'"
  using assms
proof (induction items arbitrary: L c)
  case Nil
  then show ?case by (auto simp: committed_def fun_eq_iff can_commit_def)
next
  case (Cons i items)
  obtain acc ns key b bs where i: "i = ((acc, ns, key), b, bs)" by (cases i) auto
  show ?case
  proof (cases b)
    case True
    obtain L1 where L1: "setHookState env acc ns key bs L = (tesSUCCESS, L1)" "can_commit env L1 items"
      "committed L1 items = committed L (i # items)"
      using can_commit_step [of env L acc ns key bs items] Cons.prems(1,2) True i by auto
    have "c + 1 + int (mods items) \<le> 257" using Cons.prems(4) True i by (simp add: mods_def)
    then have "u16 (c + 1) = c + 1" "\<not> c + 1 > max_state_modifications + 1"
      using Cons.prems(3) by (auto simp: max_state_modifications_def u16_def)
    then show ?thesis
      using Cons.IH [OF L1(2) Cons.prems(2), of "c + 1"] L1 Cons.prems(3) \<open>c + 1 + int (mods items) \<le> 257\<close> True i by simp
  next
    case False
    then have "committed L items = committed L (i # items)"
      using Cons.prems(1) i committed_cons [of "(acc, ns, key)" items L L False bs] by (auto simp: can_commit_def)
    moreover have "c + int (mods items) \<le> 257" using Cons.prems(4) False i by (simp add: mods_def)
    ultimately show ?thesis
      using Cons.IH [of L c] can_commit_skip [of env L "(acc, ns, key)" bs items] Cons.prems False i by simp
  qed
qed

text \<open>The reserve slots of the cache are what the commit needs.\<close>

lemma reserve_slots_enough:
  assumes "0 < increment env" "n \<le> reserve_slots env a" "0 < n"
  shows "accountReserve env (OwnerCount a + n) \<le> Balance a"
proof -
  let ?av = "Balance a - accountReserve env (OwnerCount a)"
  have "\<not> ?av < 0"
  proof
    assume "?av < 0"
    then have "0 \<le> (- ?av) div increment env" using assms(1) by (intro pos_imp_zdiv_nonneg_iff [THEN iffD2]) auto
    then show False using assms \<open>?av < 0\<close> by (simp add: reserve_slots_def)
  qed
  then have "n \<le> ?av div increment env" using assms by (simp add: reserve_slots_def)
  then have "n * increment env \<le> (?av div increment env) * increment env" using assms(1) by simp
  also have "\<dots> \<le> ?av" using assms(1) by (metis div_mult_mod_eq le_add_same_cancel1 pos_mod_sign)
  finally show ?thesis by (simp add: accountReserve_def algebra_simps)
qed

definition room :: "view_env \<Rightarrow> ledger \<Rightarrow> bool" where
  "room env L \<longleftrightarrow> 0 < increment env \<and> (\<forall>acc ns. \<not> dir_full env acc ns) \<and>
     (\<forall>acc a. map_of (accts L) acc = Some a \<longrightarrow> OwnerCount a + 256 < 2 ^ 32 \<and> HookStateCount a + 256 < 2 ^ 32)"

lemma mods_card:
  assumes "map_wf (stateMap S)"
  shows "mods (cache_items (stateMap S)) = card (modified_keys S)"
proof -
  let ?I = "cache_items (stateMap S)" and ?F = "filter (\<lambda>(k, b, bs). b) (cache_items (stateMap S))"
  note get = cache_items_get [OF assms]
  have "distinct (map fst ?F)" using get(2) by (simp add: distinct_map_filter)
  then have "length ?F = card (fst ` set ?F)" by (metis distinct_card length_map set_map)
  moreover have "fst ` set ?F = modified_keys S"
    using get by (force simp: modified_keys_def image_iff get(1) [symmetric] map_of_eq_Some_iff)
  ultimately show ?thesis by (simp add: mods_def)
qed

lemma fresh_items_keys:
  assumes "map_wf (stateMap S)"
  shows "fresh_items L acc (cache_items (stateMap S)) = fresh_keys L S acc"
  using cache_items_get [OF assms]
  by (auto simp: fresh_items_def fresh_keys_def modified_keys_def map_of_eq_Some_iff cache_items_get(1) [OF assms, symmetric])

lemma session_can_commit:
  assumes inv: "cache_inv env L S" and ok: "ledger_ok L" and room: "room env L"
  shows "can_commit env L (cache_items (stateMap S))"
proof -
  have wf: "map_wf (stateMap S)" and sl: "slots_ok env L S" using inv by (auto simp: cache_inv_def)
  note get = cache_items_get [OF wf]
  have at: "\<exists>e. entry_at S acc = Some e" if "cget S (acc, ns, key) = Some v" for acc ns key v
    using that by (auto simp: cget_def lookup_entry entry_at_def split: option.splits)
  have item: "length bs \<le> 256 \<and> \<not> dir_full env acc ns \<and> map_of (accts L) acc \<noteq> None"
    if "((acc, ns, key), True, bs) \<in> set (cache_items (stateMap S))" for acc ns key bs
  proof -
    have c: "cget S (acc, ns, key) = Some (True, bs)" using that get by (simp add: map_of_eq_Some_iff get(1) [symmetric])
    with at obtain e where "entry_at S acc = Some e" by blast
    then have "map_of (accts L) acc \<noteq> None" using sl unfolding slots_ok_def by blast
    moreover have "length bs \<le> 256" using inv c unfolding cache_inv_def by blast
    ultimately show ?thesis using room by (simp add: room_def)
  qed
  have acct: "acct_can env L (cache_items (stateMap S)) acc a" if a: "map_of (accts L) acc = Some a" for acc a
  proof -
    have "accountReserve env (OwnerCount a + int (card (fresh_keys L S acc))) \<le> Balance a" if ne: "fresh_keys L S acc \<noteq> {}"
    proof (rule reserve_slots_enough)
      from ne obtain ns key bs where "cget S (acc, ns, key) = Some (True, bs)"
        by (auto simp: fresh_keys_def modified_keys_def)
      with at obtain e where "entry_at S acc = Some e" by blast
      with sl a ne show "int (card (fresh_keys L S acc)) \<le> reserve_slots env a" unfolding slots_ok_def by fastforce
      show "0 < int (card (fresh_keys L S acc))" using ne fresh_keys_finite [OF wf] by (simp add: card_gt_0_iff)
      show "0 < increment env" using room by (simp add: room_def)
    qed
    moreover have "card (modified_keys S) \<le> 256" using inv by (simp add: cache_inv_def)
    ultimately show ?thesis
      using room a unfolding acct_can_def room_def mods_card [OF wf] fresh_items_keys [OF wf] by fastforce
  qed
  show ?thesis unfolding can_commit_def using ok get(2) item acct by blast
qed

text \<open>What a hook would read: the cache, and the ledger where the cache has nothing. An entry of no bytes is none.\<close>

definition visible :: "ledger \<Rightarrow> state_ctx \<Rightarrow> AccountID \<times> blob \<times> blob \<Rightarrow> blob option" where
  "visible L S k =
     (case cget S k of None \<Rightarrow> map_of (hookStates L) k | Some (_, bs) \<Rightarrow> if bs = [] then None else Some bs)"

lemma committed_visible:
  assumes "cache_inv env L S" "ledger_ok L"
  shows "committed L (cache_items (stateMap S)) = visible L S"
proof
  fix k :: "AccountID \<times> blob \<times> blob"
  obtain acc ns key where k: "k = (acc, ns, key)" by (cases k)
  have "map_of (hookStates L) k = Some bs \<and> bs \<noteq> []" if "cget S k = Some (False, bs)" for bs
    using that assms k unfolding cache_inv_def ledger_ok_def by blast
  moreover have "map_of (cache_items (stateMap S)) = cget S" using assms(1) by (simp add: cache_inv_def cache_items_get(1))
  ultimately show "committed L (cache_items (stateMap S)) k = visible L S k"
    by (auto simp: committed_def visible_def split: option.splits)
qed

end
