(* ===== verification/Hook_State_Session.thy ===== *)
theory Hook_State_Session
  imports Hook_State_Commit
begin

text \<open>
  A transaction's use of hook state, from the first hook to the commit: an abstract map that successful writes
  update, and that the calls of the API, the shared cache and the commit implement.
\<close>

subsection \<open>The abstract state\<close>

type_synonym state_key = "AccountID \<times> blob \<times> blob"

text \<open>An entry that is set to no bytes is deleted.\<close>

definition spec_write :: "state_key \<times> blob \<Rightarrow> (state_key \<rightharpoonup> blob) \<Rightarrow> (state_key \<rightharpoonup> blob)" where
  "spec_write = (\<lambda>(k, bs) m. m(k := if bs = [] then None else Some bs))"

text \<open>The entry that the arguments of \<open>state_foreign_set\<close> name.\<close>

definition target :: "hook_ident \<Rightarrow> blob \<Rightarrow> int \<Rightarrow> int \<Rightarrow> int \<Rightarrow> int \<Rightarrow> int \<Rightarrow> int \<Rightarrow> state_key" where
  "target me mem kread_ptr kread_len nread_ptr nread_len aread_ptr aread_len =
     (if aread_len = 20 then mem_read mem aread_ptr 20 else hookAccount me,
      if nread_len = 0 then hookNamespace me else mem_read mem nread_ptr 32,
      the (make_state_key (mem_read mem kread_ptr kread_len)))"

text \<open>
  A transaction: the hooks \<open>H\<close> read and write state through the API with arguments and memory of their choice, and
  one hook follows another with the same cache. \<open>W\<close> is the list of the writes that were successful.
\<close>

inductive session :: "view_env \<Rightarrow> ledger \<Rightarrow> hook_view \<Rightarrow> hook_ident set \<Rightarrow> (state_key \<times> blob) list \<Rightarrow> state_ctx \<Rightarrow> bool"
  for env L V H where
  start: "session env L V H [] empty_ctx"
| set_call: "session env L V H W S \<Longrightarrow> me \<in> H \<Longrightarrow> 0 \<le> rl \<Longrightarrow>
    state_foreign_set env L V me mem rp rl kp kl np nl ap al S = (r, S') \<Longrightarrow>
    session env L V H (if r < 0 then W else W @ [(target me mem kp kl np nl ap al, mem_read mem rp rl)]) S'"
| get_call: "session env L V H W S \<Longrightarrow> me \<in> H \<Longrightarrow>
    state_foreign sd env L me mem wp wl kp kl np nl ap al S = (r, mem', S') \<Longrightarrow> session env L V H W S'"
| next_hook: "session env L V H W S \<Longrightarrow>
    session env L V H W (S\<lparr>changedStateCount := 0, foreignStateSetDisabled := False\<rparr>)"

subsection \<open>What a call does to the cache\<close>

text \<open>The account whose state is written is that of the hook, or one of its hooks grants the namespace.\<close>

definition allowed :: "hook_view \<Rightarrow> hook_ident \<Rightarrow> state_key \<Rightarrow> bool" where
  "allowed V me = (\<lambda>(acc, ns, key). acc = hookAccount me \<or> (case hooks_of V acc of None \<Rightarrow> False | Some hooks \<Rightarrow> found_auth V me ns hooks))"

lemma cached_write_cases:
  assumes "cached_write env L acc ns key bs n S = (r, S')" "0 \<le> n"
  shows "r < 0 \<and> S' = S \<or> r = n \<and> cache_step env L acc ns key bs True S S'"
proof -
  obtain r' where r': "set_state_cache env L acc ns key bs True S = (r', S')" "r = (if r' < 0 then r' else n)"
    using assms by (auto simp: cached_write_def split: prod.splits)
  from set_state_cache_cases [OF r'(1)] r'(2) show ?thesis by auto
qed

lemma write_state_cases:
  assumes "write_state env L V me acc ns key bs n S = (r, S')" "0 \<le> n"
  shows "r < 0 \<and> stateMap S' = stateMap S \<or>
    r = n \<and> cache_step env L acc ns key bs True S S' \<and> (allowed V me (acc, ns, key) \<or> (acc, ns, key) \<in> modified_keys S)"
proof -
  have "r < 0 \<and> stateMap S' = stateMap S \<or> cached_write env L acc ns key bs n S = (r, S') \<and>
      (allowed V me (acc, ns, key) \<or> (acc, ns, key) \<in> modified_keys S)"
    using assms(1) by (auto simp: write_state_def allowed_def modified_keys_def cget_def split: if_splits option.splits bool.splits)
  then show ?thesis using cached_write_cases [OF _ assms(2)] by blast
qed

lemma state_foreign_set_write:
  assumes "state_foreign_set env L V me mem rp rl kp kl np nl ap al S = (r, S')"
  shows "r < 0 \<and> S' = S \<or> rl \<le> 256 \<and> (\<exists>acc ns key. target me mem kp kl np nl ap al = (acc, ns, key) \<and>
    write_state env L V me acc ns key (mem_read mem rp rl) rl S = (r, S'))"
  using assms
  by (auto simp: state_foreign_set_def target_def Let_def maxHookStateDataSize_def split: if_splits option.splits)

lemma state_foreign_set_cases:
  assumes "state_foreign_set env L V me mem rp rl kp kl np nl ap al S = (r, S')" "0 \<le> rl"
  shows "r < 0 \<and> stateMap S' = stateMap S \<or>
    r = rl \<and> (\<exists>acc ns key. target me mem kp kl np nl ap al = (acc, ns, key) \<and> length (mem_read mem rp rl) \<le> 256 \<and>
      cache_step env L acc ns key (mem_read mem rp rl) True S S' \<and>
      (allowed V me (acc, ns, key) \<or> (acc, ns, key) \<in> modified_keys S))"
  using state_foreign_set_write [OF assms(1)]
proof
  assume "rl \<le> 256 \<and> (\<exists>acc ns key. target me mem kp kl np nl ap al = (acc, ns, key) \<and>
    write_state env L V me acc ns key (mem_read mem rp rl) rl S = (r, S'))"
  then obtain acc ns key where "rl \<le> 256" "target me mem kp kl np nl ap al = (acc, ns, key)"
    and w: "write_state env L V me acc ns key (mem_read mem rp rl) rl S = (r, S')" by blast
  moreover have "length (mem_read mem rp rl) \<le> 256" using \<open>rl \<le> 256\<close> by (simp add: mem_read_def)
  ultimately show ?thesis using write_state_cases [OF w assms(2)] by blast
qed simp

lemma state_foreign_cases:
  assumes "state_foreign sd env L me mem wp wl kp kl np nl ap al S = (r, mem', S')"
  shows "S' = S \<or> (\<exists>acc ns key bs. cget S (acc, ns, key) = None \<and> map_of (hookStates L) (acc, ns, key) = Some bs \<and>
    cache_step env L acc ns key bs False S S')"
proof (cases "S' = S")
  case False
  with assms obtain acc ns key x where x: "read_state env L acc ns key S = (x, S')"
    by (auto simp: state_foreign_def Let_def split: if_splits option.splits prod.splits sum.splits)
  with False obtain bs where n: "lookup_state_cache (stateMap S) acc ns key = None" "map_of (hookStates L) (acc, ns, key) = Some bs"
    by (auto simp: read_state_def split: option.splits prod.splits)
  then obtain r' where "set_state_cache env L acc ns key bs False S = (r', S')"
    using x by (auto simp: read_state_def split: prod.splits)
  from set_state_cache_cases [OF this] False n show ?thesis by (auto simp: cget_def)
qed simp

subsection \<open>Every transaction keeps the invariant\<close>

lemma session_inv: "session env L V H W S \<Longrightarrow> cache_inv env L S"
proof (induction rule: session.induct)
  case start
  show ?case by (rule cache_inv_empty)
next
  case (set_call W S me rl mem rp kp kl np nl ap al r S')
  from state_foreign_set_cases [OF set_call.hyps(4,3)] show ?case
    using cache_inv_cong set_call.IH cache_inv_step [OF set_call.IH] by blast
next
  case (get_call W S me sd mem wp wl kp kl np nl ap al r mem' S')
  from state_foreign_cases [OF get_call.hyps(3)] show ?case
    using get_call.IH cache_inv_step [OF get_call.IH] by blast
next
  case (next_hook W S)
  then show ?case using cache_inv_cong [of S "S\<lparr>changedStateCount := 0, foreignStateSetDisabled := False\<rparr>"] by simp
qed

lemma visible_cong: "stateMap S = stateMap S' \<Longrightarrow> visible L S = visible L S'"
  using cget_cong [of S S'] by (simp add: visible_def fun_eq_iff)

lemma visible_write:
  "cache_step env L acc ns key bs True S S' \<Longrightarrow> visible L S' = spec_write ((acc, ns, key), bs) (visible L S)"
  by (simp add: visible_def spec_write_def fun_eq_iff cache_step_get)

lemma visible_read:
  assumes "cache_step env L acc ns key bs False S S'" "cget S (acc, ns, key) = None"
    "map_of (hookStates L) (acc, ns, key) = Some bs" "ledger_ok L"
  shows "visible L S' = visible L S"
proof -
  have "bs \<noteq> []" using assms(3,4) unfolding ledger_ok_def by blast
  then show ?thesis using assms(2,3) by (simp add: visible_def fun_eq_iff cache_step_get [OF assms(1)])
qed

lemma session_visible:
  "session env L V H W S \<Longrightarrow> ledger_ok L \<Longrightarrow> visible L S = fold spec_write W (map_of (hookStates L))"
proof (induction rule: session.induct)
  case start
  show ?case by (simp add: visible_def cget_def empty_ctx_def lookup_state_cache_def fun_eq_iff)
next
  case (set_call W S me rl mem rp kp kl np nl ap al r S')
  from state_foreign_set_cases [OF set_call.hyps(4,3)] consider (fail) "r < 0" "stateMap S' = stateMap S"
    | (ok) acc ns key where "r = rl" "target me mem kp kl np nl ap al = (acc, ns, key)"
        "cache_step env L acc ns key (mem_read mem rp rl) True S S'" by blast
  then show ?case
  proof cases
    case fail
    then show ?thesis using set_call.IH [OF set_call.prems] visible_cong [of S' S L] by simp
  next
    case ok
    then show ?thesis using set_call.IH [OF set_call.prems] visible_write [OF ok(3)] set_call.hyps(3) by simp
  qed
next
  case (get_call W S me sd mem wp wl kp kl np nl ap al r mem' S')
  from state_foreign_cases [OF get_call.hyps(3)] have "visible L S' = visible L S"
    using visible_read [OF _ _ _ get_call.prems] by blast
  then show ?case using get_call.IH [OF get_call.prems] by simp
next
  case (next_hook W S)
  then show ?case using visible_cong [of S "S\<lparr>changedStateCount := 0, foreignStateSetDisabled := False\<rparr>" L] by simp
qed

lemma finalize_session:
  assumes "session env L V H W S" "ledger_ok L" "room env L"
  shows "\<exists>L'. finalizeHookState env (stateMap S) L = (tesSUCCESS, L') \<and>
    map_of (hookStates L') = fold spec_write W (map_of (hookStates L)) \<and> ledger_ok L'"
proof -
  have inv: "cache_inv env L S" using assms(1) by (rule session_inv)
  then have "0 + int (mods (cache_items (stateMap S))) \<le> 257"
    by (simp add: cache_inv_def mods_card)
  moreover have "0 \<le> increment env" using assms(3) by (simp add: room_def)
  ultimately show ?thesis
    using commit_items_ok [OF session_can_commit [OF inv assms(2,3)]] committed_visible [OF inv assms(2)]
      session_visible [OF assms(1,2)]
    by (auto simp: finalizeHookState_def)
qed

subsection \<open>Only what is granted is written\<close>

lemma session_allowed: "session env L V H W S \<Longrightarrow> k \<in> modified_keys S \<or> k \<in> fst ` set W \<Longrightarrow> \<exists>me \<in> H. allowed V me k"
proof (induction arbitrary: k rule: session.induct)
  case start
  then show ?case by (auto simp: modified_keys_def cget_def empty_ctx_def lookup_state_cache_def)
next
  case (set_call W S me rl mem rp kp kl np nl ap al r S')
  from state_foreign_set_cases [OF set_call.hyps(4,3)] show ?case
  proof
    assume r: "r < 0 \<and> stateMap S' = stateMap S"
    then have "modified_keys S' = modified_keys S" using cget_cong [of S S'] by (simp add: modified_keys_def)
    then show ?thesis using set_call.IH [of k] set_call.prems r by simp
  next
    assume "r = rl \<and> (\<exists>acc ns key. target me mem kp kl np nl ap al = (acc, ns, key) \<and> length (mem_read mem rp rl) \<le> 256 \<and>
      cache_step env L acc ns key (mem_read mem rp rl) True S S' \<and>
      (allowed V me (acc, ns, key) \<or> (acc, ns, key) \<in> modified_keys S))"
    then obtain acc ns key where t: "r = rl" "target me mem kp kl np nl ap al = (acc, ns, key)"
      "cache_step env L acc ns key (mem_read mem rp rl) True S S'"
      "allowed V me (acc, ns, key) \<or> (acc, ns, key) \<in> modified_keys S" by blast
    have "k = (acc, ns, key) \<or> k \<in> modified_keys S \<or> k \<in> fst ` set W"
      using set_call.prems t modified_keys_step [OF t(3)] by (auto split: if_splits)
    then show ?thesis using t(4) set_call.IH set_call.hyps(2) by blast
  qed
next
  case (get_call W S me sd mem wp wl kp kl np nl ap al r mem' S')
  from state_foreign_cases [OF get_call.hyps(3)] have "modified_keys S' = modified_keys S"
    using modified_keys_step [of env L _ _ _ _ False S S'] by auto
  then show ?case using get_call.IH get_call.prems by simp
next
  case (next_hook W S)
  then show ?case using cget_cong [of S "S\<lparr>changedStateCount := 0, foreignStateSetDisabled := False\<rparr>"]
    by (simp add: modified_keys_def)
qed

end
