(* ===== verification/Hook_State_Refine.thy ===== *)
theory Hook_State_Refine
  imports Hook_State_Session
begin

text \<open>
  The contract of hook state: what a read returns, that a transaction commits its successful writes, and who may
  write.
\<close>

subsection \<open>Reads\<close>

text \<open>A read of an entry that is in the ledger does not fail, so the code's \<open>INTERNAL_ERROR\<close> does not occur.\<close>

lemma cache_read_ok:
  assumes "ledger_ok L" "map_of (hookStates L) (acc, ns, key) = Some bs" "set_state_cache env L acc ns key bs False S = (r, S')"
  shows "r = 1"
proof -
  obtain ks a where "map_of (stateDirs L) (acc, ns) = Some ks" "map_of (accts L) acc = Some a"
    using assms(1,2) unfolding ledger_ok_def by blast
  then show ?thesis
    using assms(3) by (auto simp: set_state_cache_def new_account_entry_def dirExists_def Let_def split: option.splits if_splits)
qed

lemma read_state_visible:
  assumes ok: "ledger_ok L" and r: "read_state env L acc ns key S = (x, S')"
  shows "case visible L S (acc, ns, key) of Some bs \<Rightarrow> x = Inr bs | None \<Rightarrow> x = Inl DOESNT_EXIST \<or> x = Inr []"
proof (cases "lookup_state_cache (stateMap S) acc ns key")
  case None
  then have v: "visible L S (acc, ns, key) = map_of (hookStates L) (acc, ns, key)" by (simp add: visible_def cget_def)
  show ?thesis
  proof (cases "map_of (hookStates L) (acc, ns, key)")
    case (Some bs)
    obtain r' S1 where s: "set_state_cache env L acc ns key bs False S = (r', S1)" by fastforce
    then have "r' = 1" using cache_read_ok [OF ok Some] by blast
    then show ?thesis using r None Some s v by (simp add: read_state_def)
  qed (use None r v in \<open>simp add: read_state_def\<close>)
next
  case (Some v)
  then show ?thesis using r by (auto simp: read_state_def visible_def cget_def split: prod.splits)
qed

text \<open>The read of a hook's own state once its arguments have passed.\<close>

definition read_args :: "blob \<Rightarrow> int \<Rightarrow> int \<Rightarrow> int \<Rightarrow> int \<Rightarrow> bool" where
  "read_args mem wp wl kp kl \<longleftrightarrow> 0 < wp \<and> 1 \<le> wl \<and> wp + wl \<le> int (length mem) \<and>
     0 \<le> kp \<and> 1 \<le> kl \<and> kl \<le> 32 \<and> kp + kl \<le> int (length mem)"

lemma make_state_key_read:
  assumes "0 \<le> kp" "1 \<le> kl" "kl \<le> 32" "kp + kl \<le> int (length mem)"
  shows "make_state_key (mem_read mem kp kl) = Some (replicate (32 - nat kl) 0 @ mem_read mem kp kl)"
proof -
  have "length (mem_read mem kp kl) = nat kl" using assms unfolding mem_read_def by (simp add: le_diff_conv2 nat_le_iff)
  then show ?thesis using assms by (simp add: make_state_key_def)
qed

lemma state_api_read:
  assumes "read_args mem wp wl kp kl"
  shows "state_api sd env L me mem wp wl kp kl S =
    (case read_state env L (hookAccount me) (hookNamespace me) (replicate (32 - nat kl) 0 @ mem_read mem kp kl) S of
       (Inl code, S) \<Rightarrow> (code, mem, S)
     | (Inr bs, S) \<Rightarrow> let (code, mem) = WRITE_WASM_MEMORY_OR_RETURN_AS_INT64 sd wp wl bs False mem in (code, mem, S))"
proof -
  have "\<not> NOT_IN_BOUNDS kp kl mem" "\<not> NOT_IN_BOUNDS 0 0 mem" "\<not> NOT_IN_BOUNDS wp wl mem"
    using assms by (auto simp: read_args_def NOT_IN_BOUNDS_def)
  then show ?thesis
    using assms make_state_key_read [of kp kl mem]
    by (simp add: state_api_def state_foreign_def read_args_def del: length_greater_0_conv)
qed

lemma write_out_ok:
  assumes "copies sd" "0 < p" "int (length bs) \<le> len" "p + len \<le> int (length mem)"
  shows "WRITE_WASM_MEMORY_OR_RETURN_AS_INT64 sd p len bs False mem = (int (length bs), mem_put mem (nat p) bs)"
  using assms write_wasm_ok [of sd p bs len mem 0]
  by (auto simp: WRITE_WASM_MEMORY_OR_RETURN_AS_INT64_def WRITE_WASM_MEMORY_AND_RETURN_def mem_put_def)

text \<open>
  C9. What a hook reads is the abstract state. In any transaction over a consistent ledger, the function \<open>state\<close>
  called with arguments that pass the checks and a buffer that is long enough returns the length of the entry's
  current value, that is of the last successful write of the transaction or of what the ledger holds, and stores the
  value in the buffer; an entry that does not exist gives \<open>DOESNT_EXIST\<close>, or 0 when the transaction itself deleted it.
\<close>

theorem state_reads_visible:
  assumes "session env L V H W S" "ledger_ok L" "copies sd" "read_args mem wp wl kp kl"
    and "k = (hookAccount me, hookNamespace me, replicate (32 - nat kl) 0 @ mem_read mem kp kl)"
    and "state_api sd env L me mem wp wl kp kl S = (code, mem', S')"
  shows "case fold spec_write W (map_of (hookStates L)) k of
      Some bs \<Rightarrow> int (length bs) \<le> wl \<longrightarrow> code = int (length bs) \<and> mem_read mem' wp code = bs
    | None \<Rightarrow> (code = DOESNT_EXIST \<or> code = 0) \<and> mem' = mem"
proof -
  let ?key = "replicate (32 - nat kl) 0 @ mem_read mem kp kl"
  obtain x S1 where x: "read_state env L (hookAccount me) (hookNamespace me) ?key S = (x, S1)" by fastforce
  have a: "0 < wp" "1 \<le> wl" "wp + wl \<le> int (length mem)" using assms(4) by (simp_all add: read_args_def)
  have code: "(code, mem') = (case x of Inl c \<Rightarrow> (c, mem) | Inr bs \<Rightarrow> WRITE_WASM_MEMORY_OR_RETURN_AS_INT64 sd wp wl bs False mem)"
    using assms(6) unfolding state_api_read [OF assms(4)] x by (auto split: sum.splits prod.splits)
  have out: "(code, mem') = (int (length bs), mem_put mem (nat wp) bs)" if "x = Inr bs" "int (length bs) \<le> wl" for bs
    using code that write_out_ok [OF assms(3) a(1) that(2) a(3)] by simp
  have v: "case visible L S k of Some bs \<Rightarrow> x = Inr bs | None \<Rightarrow> x = Inl DOESNT_EXIST \<or> x = Inr []"
    using read_state_visible [OF assms(2) x] assms(5) by simp
  show ?thesis
  proof (cases "visible L S k")
    case None
    then show ?thesis
      using v code out [of "[]"] a unfolding session_visible [OF assms(1,2), symmetric] by (auto simp: mem_put_def)
  next
    case (Some bs)
    have "mem_read mem' wp code = bs" "code = int (length bs)" if "int (length bs) \<le> wl"
    proof -
      have e: "code = int (length bs)" "mem' = mem_put mem (nat wp) bs" using out [of bs] v Some that by auto
      then show "code = int (length bs)" by simp
      have "nat wp + length bs \<le> length mem" using a that by linarith
      from mem_read_put [OF this] show "mem_read mem' wp code = bs" using e a by simp
    qed
    then show ?thesis using Some unfolding session_visible [OF assms(1,2), symmetric] by simp
  qed
qed

subsection \<open>A transaction to witness them\<close>

definition example_hook :: hook_ident where
  "example_hook = \<lparr>hookAccount = [1], hookNamespace = [2], hookHash = [3]\<rparr>"

definition example_view :: hook_view where
  "example_view = \<lparr>hooks_of = (\<lambda>_. None), def_namespace = (\<lambda>_. None)\<rparr>"

definition example_key :: state_key where
  "example_key = ([1], [2], replicate 30 0 @ [12, 13])"

definition example_ctx :: state_ctx where
  "example_ctx = \<lparr>stateMap = \<lparr>entries = [([1], \<lparr>availableForReserves = 17, namespaceCount = 1,
     namespaces = [([2], [(replicate 30 0 @ [12, 13], (True, [10, 11]))])]\<rparr>)], modified_entry_count = 1\<rparr>,
     changedStateCount = 0, foreignStateSetDisabled = False\<rparr>"

lemma example_session: "session example_env example_ledger example_view {example_hook} [(example_key, [10, 11])] example_ctx"
proof -
  let ?mem = "[10, 11, 12, 13] :: blob"
  have "state_foreign_set example_env example_ledger example_view example_hook ?mem 0 2 2 2 0 0 0 0 empty_ctx = (2, example_ctx)"
    by (simp add: state_foreign_set_def NOT_IN_BOUNDS_def maxHookStateDataSize_def example_ledger_def example_env_def
        example_hook_def make_state_key_def mem_read_def numeral_2_eq_2 write_state_def cached_write_def set_state_cache_def
        empty_ctx_def new_account_entry_def reserve_slots_def accountReserve_def max_state_modifications_def maxNamespaces_def
        dirExists_def example_ctx_def)
  from session.set_call [OF session.start _ _ this] show ?thesis
    by (simp add: target_def example_key_def example_hook_def make_state_key_def mem_read_def numeral_2_eq_2)
qed

lemma example_ledger_ok: "ledger_ok example_ledger"
  by (simp add: ledger_ok_def example_ledger_def)

lemma example_room: "room example_env example_ledger"
  by (simp add: room_def example_ledger_def example_env_def)

theorem state_reads_visible_witness:
  "case state_api put_data example_env example_ledger example_hook [12, 13, 0, 0] 2 2 0 2 example_ctx of
     (code, mem', S') \<Rightarrow> code = 2 \<and> mem_read mem' 2 code = [10, 11]"
proof -
  obtain code mem' S' where
    c: "state_api put_data example_env example_ledger example_hook [12, 13, 0, 0] 2 2 0 2 example_ctx = (code, mem', S')"
    by (metis prod_cases3)
  have args: "read_args [12, 13, 0, 0] 2 2 0 2" by (simp add: read_args_def)
  from state_reads_visible [OF example_session example_ledger_ok copies_put_data args refl c]
  have "code = 2 \<and> mem_read mem' 2 code = [10, 11]"
    by (auto simp: example_key_def example_hook_def spec_write_def mem_read_def numeral_2_eq_2)
  then show ?thesis unfolding c by auto
qed

subsection \<open>The contract\<close>



text \<open>
  C8. The invariant of the cache holds in every transaction: its maps are ordered, an entry that is not modified is
  that of the ledger, a modified one has at most 256 bytes, no more than 256 entries are modified, and the reserve of
  each account pays for its new entries.
\<close>

theorem state_cache_invariant:
  assumes "session env L V H W S"
  shows "cache_inv env L S"
  using assms by (rule session_inv)

theorem state_cache_invariant_witness: "cache_inv example_env example_ledger example_ctx"
  using state_cache_invariant [OF example_session] .

lemma spec_write_other: "k \<notin> fst ` set W \<Longrightarrow> fold spec_write W m k = m k"
  by (induction W arbitrary: m) (auto simp: spec_write_def)

text \<open>
  C7. State is protected. An entry that belongs to none of the accounts of the hooks that run, in a namespace for
  which its account grants none of them access, is in the ledger after the commit as it was before.
\<close>

theorem state_protected:
  assumes "session env L V H W S" "ledger_ok L" "room env L"
    and "\<forall>me \<in> H. \<not> allowed V me (acc, ns, key)"
    and "finalizeHookState env (stateMap S) L = (ter, L')"
  shows "map_of (hookStates L') (acc, ns, key) = map_of (hookStates L) (acc, ns, key)"
proof -
  have "(acc, ns, key) \<notin> fst ` set W" using session_allowed [OF assms(1)] assms(4) by blast
  then show ?thesis using finalize_session [OF assms(1-3)] assms(5) by (auto simp: spec_write_other)
qed

theorem state_protected_witness:
  "map_of (hookStates (snd (finalizeHookState example_env (stateMap example_ctx) example_ledger))) ([9], [2], [3]) = None"
  using state_protected [OF example_session example_ledger_ok example_room, of "[9]" "[2]" "[3]"]
  by (simp add: allowed_def example_hook_def example_view_def example_ledger_def prod_eq_iff)

text \<open>
  The grant is of the transaction and not of the hook: once a granted hook has modified an entry, another hook of the
  transaction that no grant names overwrites it.
\<close>

definition granting_view :: hook_view where
  "granting_view = \<lparr>hooks_of = (\<lambda>acc. if acc = replicate 20 1 then Some [\<lparr>obj_hash = Some [9],
     obj_grants = Some [\<lparr>grant_hash = [7], grant_authorize = None\<rparr>], obj_namespace = Some (replicate 32 2)\<rparr>] else None),
     def_namespace = (\<lambda>_. None)\<rparr>"

lemma shared_cache_skips_grants:
  fixes mem :: blob
  defines "mem \<equiv> replicate 20 1 @ replicate 32 2 @ [5, 6]"
    and "L \<equiv> \<lparr>accts = [(replicate 20 1, \<lparr>Balance = 100, OwnerCount = 0, HookStateCount = 0, HookNamespaces = None\<rparr>),
       ([4], \<lparr>Balance = 100, OwnerCount = 0, HookStateCount = 0, HookNamespaces = None\<rparr>)], hookStates = [], stateDirs = []\<rparr>"
    and "granted \<equiv> \<lparr>hookAccount = [4], hookNamespace = [2], hookHash = [7]\<rparr>"
    and "other \<equiv> \<lparr>hookAccount = [4], hookNamespace = [2], hookHash = [8]\<rparr>"
  shows "let S1 = snd (state_foreign_set example_env L granting_view granted mem 52 1 53 1 20 32 0 20 empty_ctx) in
    \<not> allowed granting_view other (target other mem 53 1 20 32 0 20) \<and>
    fst (state_foreign_set example_env L granting_view other mem 53 1 53 1 20 32 0 20 empty_ctx) = NOT_AUTHORIZED \<and>
    fst (state_foreign_set example_env L granting_view other mem 53 1 53 1 20 32 0 20 S1) = 1"
  unfolding assms allowed_def granting_view_def target_def by code_simp

end
