(* ===== verification/Hook_Sto.thy ===== *)
theory Hook_Sto
  imports Hook_Memory
begin

text \<open>
  Serialized objects in the memory of a hook: the parser \<open>get_stobject_length\<close> and the API functions
  \<open>sto_subfield\<close>, \<open>sto_subarray\<close>, \<open>sto_emplace\<close>, \<open>sto_erase\<close>, \<open>sto_validate\<close> of
  \<^verbatim>\<open>src/src/ripple/app/hook/impl/applyHook.cpp\<close>.

  A pointer such as \<open>upto\<close>, here \<open>pos\<close>, is an offset into the buffer that starts at \<open>start\<close> and ends at \<open>maxptr\<close>; every read goes through
  \<open>sto_byte\<close>, which is \<open>Undefined\<close> outside of the buffer. The error codes of the parser are \<open>Reject\<close>.
\<close>

subsection \<open>The parser\<close>

abbreviation (input) pe_unexpected_end :: int where "pe_unexpected_end \<equiv> - 1"
abbreviation (input) pe_unknown_type_early :: int where "pe_unknown_type_early \<equiv> - 2"
abbreviation (input) pe_unknown_type_late :: int where "pe_unknown_type_late \<equiv> - 3"
abbreviation (input) pe_excessive_nesting :: int where "pe_excessive_nesting \<equiv> - 4"
abbreviation (input) pe_excessive_size :: int where "pe_excessive_size \<equiv> - 5"

record sto_obj =
  sto_type :: nat
  sto_field :: nat
  payload_start :: nat
  payload_length :: nat
  sto_len :: nat

definition sto_byte :: "blob \<Rightarrow> nat \<Rightarrow> fault + nat" where
  "sto_byte bs p = (if p < length bs then Inr (unat (bs ! p)) else Inl Undefined)"

text \<open>The one, two or three bytes of the field code: type, field and the offset behind them.\<close>

definition sto_code :: "blob \<Rightarrow> fault + (nat \<times> nat \<times> nat)" where
  "sto_code bs =
     rbind (sto_byte bs 0) (\<lambda>b.
     let high = b div 16; low = b mod 16 in
     rbind (require (1 < length bs) (Reject pe_unexpected_end)) (\<lambda>_.
     if high > 0 \<and> low > 0 then Inr (high, low, 1)
     else if high > 0 then rbind (sto_byte bs 1) (\<lambda>field. Inr (high, field, 2))
     else if low > 0 then rbind (sto_byte bs 1) (\<lambda>type. Inr (type, low, 2))
     else
       rbind (sto_byte bs 1) (\<lambda>type.
       rbind (require (2 < length bs) (Reject pe_unexpected_end)) (\<lambda>_.
       rbind (sto_byte bs 2) (\<lambda>field. Inr (type, field, 3))))))"

text \<open>The length prefix of a variable-length field: the length and the offset behind the prefix.\<close>

definition sto_vl :: "blob \<Rightarrow> nat \<Rightarrow> fault + (nat \<times> nat)" where
  "sto_vl bs pos =
     rbind (sto_byte bs pos) (\<lambda>len.
     rbind (require (pos + 1 < length bs) (Reject pe_unexpected_end)) (\<lambda>_.
     if len < 193 then Inr (len, pos + 1)
     else if len < 241 then
       rbind (sto_byte bs (pos + 1)) (\<lambda>b.
       rbind (require (pos + 2 \<le> length bs) (Reject pe_unexpected_end)) (\<lambda>_.
       Inr ((len - 193) * 256 + (b + 193), pos + 2)))
     else
       rbind (sto_byte bs (pos + 1)) (\<lambda>b2.
       rbind (require (pos + 2 < length bs) (Reject pe_unexpected_end)) (\<lambda>_.
       rbind (sto_byte bs (pos + 2)) (\<lambda>b3.
       rbind (require (pos + 3 < length bs) (Reject pe_unexpected_end)) (\<lambda>_.
       Inr ((len - 241) * 65536 + (12481 + b2 * 256 + b3), pos + 3)))))))"

definition sto_fixed :: "nat \<Rightarrow> nat" where
  "sto_fixed type =
     (if type = 1 then 2 else if type = 2 then 4 else if type = 3 then 8 else if type = 4 then 16
      else if type = 5 then 32 else if type = 16 then 1 else 20)"

text \<open>The fields inside of an object or array up to its end marker, whose offset is returned.\<close>

primrec sto_items :: "(blob \<Rightarrow> fault + sto_obj) \<Rightarrow> blob \<Rightarrow> nat \<Rightarrow> nat \<Rightarrow> nat \<Rightarrow> fault + nat" where
  "sto_items sub bs type 0 pos = Inl (Reject pe_excessive_size)"
| "sto_items sub bs type (Suc i) pos =
     (case sub (drop pos bs) of
        Inl (Reject _) \<Rightarrow> Inl (Reject pe_unexpected_end)
      | Inl f \<Rightarrow> Inl f
      | Inr obj \<Rightarrow>
          let pos = pos + sto_len obj in
          rbind (require (pos < length bs) (Reject pe_unexpected_end)) (\<lambda>_.
          rbind (sto_byte bs pos) (\<lambda>b.
          if b = 0xE1 \<and> type = 0xE \<or> b = 0xF1 \<and> type = 0xF then Inr pos
          else sto_items sub bs type i pos)))"

definition sto_simple :: "nat \<Rightarrow> nat \<Rightarrow> nat \<Rightarrow> nat \<Rightarrow> sto_obj" where
  "sto_simple type field pos len =
     \<lparr>sto_type = type, sto_field = field, payload_start = pos, payload_length = len, sto_len = len + pos\<rparr>"

text \<open>The argument counts the levels that are left: a recursion depth of 10 leaves one, of 11 none.\<close>

primrec get_stobject_length :: "nat \<Rightarrow> blob \<Rightarrow> fault + sto_obj" where
  "get_stobject_length 0 bs = Inl (Reject pe_excessive_nesting)"
| "get_stobject_length (Suc d) bs =
     rbind (sto_code bs) (\<lambda>(type, field, pos).
     rbind (require (pos < length bs) (Reject pe_unexpected_end)) (\<lambda>_.
     rbind (require (\<not> (type < 1 \<or> type > 19 \<or> type \<ge> 9 \<and> type \<le> 13)) (Reject pe_unknown_type_early)) (\<lambda>_.
     if type = 8 \<or> type = 7 \<or> type = 18 \<or> type = 19 then
       rbind (sto_vl bs pos) (\<lambda>(len, pos). Inr (sto_simple type field pos len))
     else if type \<ge> 1 \<and> type \<le> 5 \<or> type = 16 \<or> type = 17 then Inr (sto_simple type field pos (sto_fixed type))
     else if type = 6 then
       rbind (sto_byte bs pos) (\<lambda>b. Inr (sto_simple type field pos (if b div 64 = 1 then 8 else 48)))
     else if type = 15 \<or> type = 14 then
       rbind (sto_items (get_stobject_length d) bs type 1024 pos) (\<lambda>e.
       Inr \<lparr>sto_type = type, sto_field = field, payload_start = pos, payload_length = e - pos, sto_len = e + 1\<rparr>)
     else Inl (Reject pe_unknown_type_late))))"

definition sto_max_depth :: nat where "sto_max_depth = 11"

definition field_code :: "sto_obj \<Rightarrow> int" where
  "field_code obj = int (sto_type obj) * 2 ^ 16 + int (sto_field obj)"

text \<open>A parse error becomes the given return code.\<close>

definition on_reject :: "int \<Rightarrow> fault + 'a \<Rightarrow> ('a \<Rightarrow> fault + int) \<Rightarrow> fault + int" where
  "on_reject code m f = (case m of Inl (Reject _) \<Rightarrow> Inr code | Inl e \<Rightarrow> Inl e | Inr a \<Rightarrow> f a)"

subsection \<open>Looking into an object\<close>

fun subfield_loop :: "nat \<Rightarrow> blob \<Rightarrow> nat \<Rightarrow> int \<Rightarrow> fault + int" where
  "subfield_loop 0 bs pos field_id = Inr (if pos \<noteq> length bs then PARSE_ERROR else DOESNT_EXIST)"
| "subfield_loop (Suc i) bs pos field_id =
     (if pos < length bs then
        on_reject PARSE_ERROR (get_stobject_length sto_max_depth (drop pos bs)) (\<lambda>obj.
        if field_code obj = field_id then
          Inr (if sto_type obj = 0xF then int pos * 2 ^ 32 + int (sto_len obj)
               else int (pos + payload_start obj) * 2 ^ 32 + int (payload_length obj))
        else subfield_loop i bs (pos + sto_len obj) field_id)
      else Inr (if pos \<noteq> length bs then PARSE_ERROR else DOESNT_EXIST))"

definition sto_subfield :: "blob \<Rightarrow> int \<Rightarrow> int \<Rightarrow> int \<Rightarrow> fault + int" where
  "sto_subfield mem read_ptr read_len field_id =
     (if NOT_IN_BOUNDS read_ptr read_len mem then Inr OUT_OF_BOUNDS
      else if read_len < 2 then Inr TOO_SMALL
      else subfield_loop 1024 (mem_read mem read_ptr read_len) 0 field_id)"

fun subarray_loop :: "nat \<Rightarrow> blob \<Rightarrow> nat \<Rightarrow> int \<Rightarrow> int \<Rightarrow> fault + int" where
  "subarray_loop 0 bs pos i index_id = Inr (if pos \<noteq> length bs then PARSE_ERROR else DOESNT_EXIST)"
| "subarray_loop (Suc n) bs pos i index_id =
     (if pos < length bs then
        on_reject PARSE_ERROR (get_stobject_length sto_max_depth (drop pos bs)) (\<lambda>obj.
        if i = index_id then Inr (int pos * 2 ^ 32 + int (sto_len obj))
        else subarray_loop n bs (pos + sto_len obj) (i + 1) index_id)
      else Inr (if pos \<noteq> length bs then PARSE_ERROR else DOESNT_EXIST))"

definition sto_subarray :: "blob \<Rightarrow> int \<Rightarrow> int \<Rightarrow> int \<Rightarrow> fault + int" where
  "sto_subarray mem read_ptr read_len index_id =
     (if NOT_IN_BOUNDS read_ptr read_len mem then Inr OUT_OF_BOUNDS
      else if read_len < 2 then Inr TOO_SMALL
      else
        let bs = mem_read mem read_ptr read_len in
        rbind (sto_byte bs 0) (\<lambda>b.
        let wrapped = (b div 16 = 0xF);
            pos = (if wrapped then 1 else 0);
            bs = (if wrapped then take (length bs - 1) bs else bs)
        in if pos \<ge> length bs then Inr PARSE_ERROR
           else subarray_loop 1024 bs pos 0 index_id))"

fun validate_loop :: "nat \<Rightarrow> blob \<Rightarrow> nat \<Rightarrow> fault + int" where
  "validate_loop 0 bs pos = Inr (if pos = length bs then 1 else 0)"
| "validate_loop (Suc i) bs pos =
     (if pos < length bs then
        on_reject 0 (get_stobject_length sto_max_depth (drop pos bs)) (\<lambda>obj. validate_loop i bs (pos + sto_len obj))
      else Inr (if pos = length bs then 1 else 0))"

definition sto_validate :: "blob \<Rightarrow> int \<Rightarrow> int \<Rightarrow> fault + int" where
  "sto_validate mem read_ptr read_len =
     (if NOT_IN_BOUNDS read_ptr read_len mem then Inr OUT_OF_BOUNDS
      else if read_len < 2 then Inr TOO_SMALL
      else validate_loop 1024 (mem_read mem read_ptr read_len) 0)"

subsection \<open>Changing an object\<close>

text \<open>The regions are the pairs of start and end of the vector.\<close>

fun overlapping_memory :: "(int \<times> int) list \<Rightarrow> bool" where
  "overlapping_memory [] = False"
| "overlapping_memory ((a, b) # regions) =
     (list_ex (\<lambda>(c, d). \<not> (d \<le> a \<or> b \<le> c)) regions \<or> overlapping_memory regions)"

text \<open>Where the scan stops, and the part of the object that the field replaces.\<close>

fun emplace_loop :: "nat \<Rightarrow> blob \<Rightarrow> nat \<Rightarrow> int \<Rightarrow> fault + (nat \<times> nat \<times> nat)" where
  "emplace_loop 0 bs pos field_id = Inr (pos, length bs, length bs)"
| "emplace_loop (Suc i) bs pos field_id =
     (if pos < length bs then
        rbind (get_stobject_length sto_max_depth (drop pos bs)) (\<lambda>obj.
        if field_code obj = field_id then Inr (pos, pos, pos + sto_len obj)
        else if field_code obj > field_id then Inr (pos, pos, pos)
        else emplace_loop i bs (pos + sto_len obj) field_id)
      else Inr (pos, length bs, length bs))"

text \<open>One part of the output: \<open>Inl\<close> is an early return with its code and memory.\<close>

definition emplace_part ::
    "set_data \<Rightarrow> int \<Rightarrow> int \<Rightarrow> int \<Rightarrow> int \<Rightarrow> int \<times> blob \<Rightarrow> (int \<times> blob) + (int \<times> blob)" where
  "emplace_part sd write_ptr write_len src len = (\<lambda>(bytes_written, mem).
     if len > 0 then
       (case WRITE_WASM_MEMORY sd bytes_written (write_ptr + bytes_written) (write_len - bytes_written) (mem_read mem src len) mem of
          Inl code \<Rightarrow> Inl (code, mem)
        | Inr r \<Rightarrow> Inr r)
     else Inr (bytes_written, mem))"

definition emplace_write ::
    "set_data \<Rightarrow> blob \<Rightarrow> int \<Rightarrow> int \<Rightarrow> int \<Rightarrow> int \<Rightarrow> int \<Rightarrow> int \<Rightarrow> nat \<Rightarrow> nat \<Rightarrow> int \<times> blob" where
  "emplace_write sd mem write_ptr write_len sread_ptr sread_len fread_ptr fread_len inject_start inject_end =
     (case
        rbind (emplace_part sd write_ptr write_len sread_ptr (int inject_start) (0, mem)) (\<lambda>r.
        rbind (emplace_part sd write_ptr write_len fread_ptr fread_len r) (\<lambda>r.
        emplace_part sd write_ptr write_len (sread_ptr + int inject_end) (sread_len - int inject_end) r))
      of Inl r \<Rightarrow> r | Inr r \<Rightarrow> r)"

definition emplace_args ::
    "blob \<Rightarrow> int \<Rightarrow> int \<Rightarrow> int \<Rightarrow> int \<Rightarrow> int \<Rightarrow> int \<Rightarrow> int + unit" where
  "emplace_args mem write_ptr write_len sread_ptr sread_len fread_ptr fread_len =
     (let region = (\<lambda>p n. (p, u32 (p + n))) in
      if NOT_IN_BOUNDS write_ptr write_len mem then Inl OUT_OF_BOUNDS
      else if NOT_IN_BOUNDS sread_ptr sread_len mem then Inl OUT_OF_BOUNDS
      else if NOT_IN_BOUNDS fread_ptr fread_len mem then Inl OUT_OF_BOUNDS
      else if write_len < u32 (sread_len + fread_len) then Inl TOO_SMALL
      else if sread_len > 1024 * 16 then Inl TOO_BIG
      else if sread_len < 2 then Inl TOO_SMALL
      else if fread_len = 0 \<and> fread_ptr = 0 then
        require (\<not> overlapping_memory [region write_ptr write_len, region sread_ptr sread_len]) MEM_OVERLAP
      else if fread_len > 4096 then Inl TOO_BIG
      else if fread_len < 2 then Inl TOO_SMALL
      else
        require (\<not> overlapping_memory
          [region write_ptr write_len, region sread_ptr sread_len, region fread_ptr fread_len]) MEM_OVERLAP)"

definition sto_emplace ::
    "set_data \<Rightarrow> blob \<Rightarrow> int \<Rightarrow> int \<Rightarrow> int \<Rightarrow> int \<Rightarrow> int \<Rightarrow> int \<Rightarrow> int \<Rightarrow> fault + (int \<times> blob)" where
  "sto_emplace sd mem write_ptr write_len sread_ptr sread_len fread_ptr fread_len field_id =
     (case emplace_args mem write_ptr write_len sread_ptr sread_len fread_ptr fread_len of
        Inl code \<Rightarrow> Inr (code, mem)
      | Inr _ \<Rightarrow>
          (case emplace_loop 1024 (mem_read mem sread_ptr sread_len) 0 field_id of
             Inl (Reject _) \<Rightarrow> Inr (PARSE_ERROR, mem)
           | Inl f \<Rightarrow> Inl f
           | Inr (pos, inject_start, inject_end) \<Rightarrow>
               if int pos > sread_len then Inr (PARSE_ERROR, mem)
               else Inr (emplace_write sd mem write_ptr write_len sread_ptr sread_len fread_ptr fread_len inject_start inject_end)))"

definition sto_erase :: "set_data \<Rightarrow> blob \<Rightarrow> int \<Rightarrow> int \<Rightarrow> int \<Rightarrow> int \<Rightarrow> int \<Rightarrow> fault + (int \<times> blob)" where
  "sto_erase sd mem write_ptr write_len read_ptr read_len field_id =
     rbind (sto_emplace sd mem write_ptr write_len read_ptr read_len 0 0 field_id) (\<lambda>(ret, mem).
     Inr (if ret > 0 \<and> ret = read_len then DOESNT_EXIST else ret, mem))"

end
