(* ===== verification/Hook_Sto_Fields.thy ===== *)
theory Hook_Sto_Fields
  imports Hook_Sto
begin

text \<open>
  Serialized objects as lists of fields: the parser reads nothing outside of its buffer, depends on the bytes of the
  field alone, and the API functions work on the list of fields that a complete object splits into.
\<close>

subsection \<open>The parser\<close>

definition rejects :: "fault + 'a \<Rightarrow> bool" where
  "rejects m \<longleftrightarrow> (\<forall>f. m = Inl f \<longrightarrow> (\<exists>c. f = Reject c))"

named_theorems rejects_intros \<open>results that are never undefined\<close>

lemma rejects_Inr [rejects_intros, simp]: "rejects (Inr a)"
  and rejects_Reject [rejects_intros, simp]: "rejects (Inl (Reject c))"
  by (simp_all add: rejects_def)

lemma rejects_bind [rejects_intros]: "rejects m \<Longrightarrow> (\<And>a. m = Inr a \<Longrightarrow> rejects (f a)) \<Longrightarrow> rejects (rbind m f)"
  by (cases m) (auto simp: rejects_def)

lemma rejects_require [rejects_intros]: "rejects (require c (Reject e))"
  by (auto simp: rejects_def require_def)

lemma rejects_byte [rejects_intros]: "p < length bs \<Longrightarrow> rejects (sto_byte bs p)"
  by (simp add: sto_byte_def)

lemma sto_code_rejects: "bs \<noteq> [] \<Longrightarrow> rejects (sto_code bs)"
  unfolding sto_code_def Let_def by (auto intro!: rejects_intros simp: res_simps)

lemma sto_vl_rejects: "pos < length bs \<Longrightarrow> rejects (sto_vl bs pos)"
  unfolding sto_vl_def by (auto intro!: rejects_intros simp: res_simps)

lemma sto_items_rejects:
  assumes "\<And>bs. bs \<noteq> [] \<Longrightarrow> rejects (sub bs)" "pos < length bs"
  shows "rejects (sto_items sub bs type i pos)"
  using assms(2)
proof (induction i arbitrary: pos)
  case (Suc i)
  have "rejects (sub (drop pos bs))" using assms(1) Suc.prems by simp
  then show ?case
    using Suc.IH by (auto simp: Let_def res_simps rejects_def split: sum.splits fault.splits intro!: rejects_intros)
       (auto simp: res_simps sto_byte_def rejects_def split: if_splits)
qed simp

lemma get_stobject_length_rejects: "bs \<noteq> [] \<Longrightarrow> rejects (get_stobject_length d bs)"
proof (induction d arbitrary: bs)
  case (Suc d)
  have "rejects (sto_items (get_stobject_length d) bs type i pos)" if "pos < length bs" for type i pos
    using sto_items_rejects [of "get_stobject_length d"] Suc.IH that by blast
  then show ?case
    using sto_code_rejects [OF Suc.prems] sto_vl_rejects [of _ bs]
    by (auto simp: res_simps intro!: rejects_intros)
qed simp

lemma sto_code_pos: "sto_code bs = Inr (type, field, pos) \<Longrightarrow> 1 \<le> pos \<and> pos \<le> 3"
  by (auto simp: sto_code_def Let_def res_simps split: if_splits)

lemma sto_vl_pos: "sto_vl bs pos = Inr (len, pos') \<Longrightarrow> pos < pos' \<and> pos' \<le> length bs"
  by (auto simp: sto_vl_def res_simps split: if_splits)

lemma sto_items_pos:
  assumes "sto_items sub bs type i pos = Inr e" "\<And>bs obj. sub bs = Inr obj \<Longrightarrow> 0 < sto_len obj"
  shows "pos < e \<and> e < length bs"
  using assms(1)
proof (induction i arbitrary: pos)
  case (Suc i)
  then obtain obj where obj: "sub (drop pos bs) = Inr obj" by (auto split: sum.splits fault.splits)
  have "0 < sto_len obj" using assms(2) obj .
  then show ?case using Suc obj by (fastforce simp: Let_def res_simps split: if_splits)
qed simp

lemma get_stobject_length_pos:
  "get_stobject_length d bs = Inr obj \<Longrightarrow> 2 \<le> sto_len obj \<and> payload_start obj \<le> sto_len obj"
proof (induction d arbitrary: bs obj)
  case (Suc d)
  have items: "pos < e" if "sto_items (get_stobject_length d) bs type i pos = Inr e" for type i pos e
    using sto_items_pos [OF that] Suc.IH by fastforce
  from Suc.prems show ?case
    by (auto simp: res_simps sto_simple_def sto_fixed_def split: if_splits dest!: sto_code_pos sto_vl_pos items)
qed simp

subsection \<open>Locality\<close>

text \<open>Two buffers that agree before \<open>n\<close>.\<close>

definition agree :: "nat \<Rightarrow> blob \<Rightarrow> blob \<Rightarrow> bool" where
  "agree n bs bs' \<longleftrightarrow> n \<le> length bs \<and> n \<le> length bs' \<and> take n bs = take n bs'"

lemma agree_nth: "agree n bs bs' \<Longrightarrow> p < n \<Longrightarrow> bs' ! p = bs ! p"
  unfolding agree_def by (metis nth_take)

lemma agree_byte: "agree n bs bs' \<Longrightarrow> p < n \<Longrightarrow> sto_byte bs' p = sto_byte bs p"
  using agree_nth [of n bs bs' p] by (simp add: sto_byte_def agree_def)

lemma agree_drop: "agree n bs bs' \<Longrightarrow> p \<le> n \<Longrightarrow> agree (n - p) (drop p bs) (drop p bs')"
  unfolding agree_def by (metis diff_le_mono drop_take length_drop)

lemma agree_mono: "agree n bs bs' \<Longrightarrow> m \<le> n \<Longrightarrow> agree m bs bs'"
  unfolding agree_def by (metis min.absorb1 order_trans take_take)

lemma sto_code_local:
  assumes "sto_code bs = Inr (type, field, pos)" "agree pos bs bs'" "pos < length bs'"
  shows "sto_code bs' = Inr (type, field, pos)"
proof -
  have p: "1 \<le> pos" using sto_code_pos [OF assms(1)] by simp
  have b: "sto_byte bs' 0 = sto_byte bs 0" "1 < pos \<Longrightarrow> sto_byte bs' 1 = sto_byte bs 1" "2 < pos \<Longrightarrow> sto_byte bs' 2 = sto_byte bs 2"
    using agree_byte [OF assms(2)] p by auto
  obtain b0 where b0: "sto_byte bs 0 = Inr b0" "1 < length bs" using assms(1) by (auto simp: sto_code_def res_simps Let_def)
  have len: "1 < length bs'" using p assms(3) by simp
  consider "0 < b0 div 16" "0 < b0 mod 16" | "0 < b0 div 16" "b0 mod 16 = 0" | "b0 div 16 = 0" "0 < b0 mod 16"
    | "b0 div 16 = 0" "b0 mod 16 = 0" unfolding neq0_conv [symmetric] by argo
  then show ?thesis
    using assms(1,3) b b0 len by cases (auto simp: sto_code_def Let_def res_simps)
qed

lemma sto_vl_local:
  assumes "sto_vl bs pos = Inr (len, pos')" "agree pos' bs bs'" "pos' < length bs'"
  shows "sto_vl bs' pos = Inr (len, pos')"
proof -
  have p: "pos < pos'" using sto_vl_pos [OF assms(1)] by simp
  have b: "sto_byte bs' pos = sto_byte bs pos" "pos + 1 < pos' \<Longrightarrow> sto_byte bs' (pos + 1) = sto_byte bs (pos + 1)"
    "pos + 2 < pos' \<Longrightarrow> sto_byte bs' (pos + 2) = sto_byte bs (pos + 2)"
    using agree_byte [OF assms(2)] p by auto
  obtain n where n: "sto_byte bs pos = Inr n" "pos + 1 < length bs" using assms(1) by (auto simp: sto_vl_def res_simps)
  have len: "pos + 1 < length bs'" using p assms(3) by simp
  consider "n < 193" | "\<not> n < 193" "n < 241" | "\<not> n < 241" by blast
  then show ?thesis
    using assms(1,3) b n len by cases (auto simp: sto_vl_def res_simps)
qed

lemma sto_items_local:
  assumes "sto_items sub bs type i pos = Inr e" "agree (e + 1) bs bs'"
    and pos: "\<And>bs obj. sub bs = Inr obj \<Longrightarrow> 0 < sto_len obj"
    and sub: "\<And>bs bs' obj. sub bs = Inr obj \<Longrightarrow> agree (sto_len obj) bs bs' \<Longrightarrow> sto_len obj < length bs' \<Longrightarrow> sub bs' = Inr obj"
  shows "sto_items sub bs' type i pos = Inr e"
  using assms(1)
proof (induction i arbitrary: pos)
  case (Suc i)
  then obtain obj where obj: "sub (drop pos bs) = Inr obj" by (auto split: sum.splits fault.splits)
  let ?p = "pos + sto_len obj"
  have le: "?p \<le> e"
    using Suc.prems obj sto_items_pos [OF _ pos] by (force simp: Let_def res_simps split: if_splits)
  have len: "e < length bs'" using assms(2) by (simp add: agree_def)
  have "agree (sto_len obj) (drop pos bs) (drop pos bs')"
    using agree_mono [OF agree_drop [OF assms(2), of pos]] le by simp
  then have sub': "sub (drop pos bs') = Inr obj" using sub [OF obj] le len by simp
  obtain b where b: "sto_byte bs ?p = Inr b"
    and rest: "(if b = 0xE1 \<and> type = 0xE \<or> b = 0xF1 \<and> type = 0xF then Inr ?p else sto_items sub bs type i ?p) = Inr e"
    using Suc.prems obj by (auto simp: Let_def res_simps)
  have "sto_byte bs' ?p = Inr b" using agree_byte [OF assms(2)] le b by simp
  then have "sto_items sub bs' type (Suc i) pos =
      (if b = 0xE1 \<and> type = 0xE \<or> b = 0xF1 \<and> type = 0xF then Inr ?p else sto_items sub bs' type i ?p)"
    using sub' le len by (simp add: Let_def)
  also have "\<dots> = Inr e" using rest Suc.IH [of ?p] by (auto split: if_splits)
  finally show ?case .
qed simp

lemma get_stobject_length_local:
  "get_stobject_length d bs = Inr obj \<Longrightarrow> agree (sto_len obj) bs bs' \<Longrightarrow> sto_len obj < length bs' \<Longrightarrow>
   get_stobject_length d bs' = Inr obj"
proof (induction d arbitrary: bs bs' obj)
  case (Suc d)
  obtain type field pos where code: "sto_code bs = Inr (type, field, pos)"
    using Suc.prems(1) by (auto simp: res_simps)
  have lenpos: "0 < sto_len obj" if "get_stobject_length d bs = Inr obj" for bs obj
    using get_stobject_length_pos [OF that] by simp
  have items: "sto_items (get_stobject_length d) bs' type 1024 pos = Inr e"
    if "sto_items (get_stobject_length d) bs type 1024 pos = Inr e" "sto_len obj = e + 1" for e
    using sto_items_local [OF that(1) _ lenpos Suc.IH] Suc.prems(2) that(2) by simp
  have start: "pos \<le> payload_start obj" "payload_start obj \<le> sto_len obj"
    using Suc.prems(1) code get_stobject_length_pos [OF Suc.prems(1)]
    by (auto simp: res_simps sto_simple_def split: if_splits dest!: sto_vl_pos)
  have ag: "agree n bs bs'" if "n \<le> sto_len obj" for n using agree_mono [OF Suc.prems(2) that] .
  have code': "sto_code bs' = Inr (type, field, pos)"
    using sto_code_local [OF code ag] start Suc.prems(3) by simp
  have vl: "sto_vl bs' pos = Inr (len, pos')" if "sto_vl bs pos = Inr (len, pos')" "payload_start obj = pos'" for len pos'
    using sto_vl_local [OF that(1) ag] that(2) start Suc.prems(3) by simp
  have byte: "sto_byte bs' pos = sto_byte bs pos" if "pos < sto_len obj" using agree_byte [OF Suc.prems(2) that] .
  have len: "pos < length bs'" using start Suc.prems(3) by simp
  have ty: "\<not> (type < 1 \<or> type > 19 \<or> type \<ge> 9 \<and> type \<le> 13)" and lenbs: "pos < length bs"
    using Suc.prems(1) code by (simp_all add: res_simps)
  have unf: "get_stobject_length (Suc d) bs0 =
      (if type = 8 \<or> type = 7 \<or> type = 18 \<or> type = 19 then
         rbind (sto_vl bs0 pos) (\<lambda>(len, pos). Inr (sto_simple type field pos len))
       else if type \<ge> 1 \<and> type \<le> 5 \<or> type = 16 \<or> type = 17 then Inr (sto_simple type field pos (sto_fixed type))
       else if type = 6 then rbind (sto_byte bs0 pos) (\<lambda>b. Inr (sto_simple type field pos (if b div 64 = 1 then 8 else 48)))
       else if type = 15 \<or> type = 14 then
         rbind (sto_items (get_stobject_length d) bs0 type 1024 pos) (\<lambda>e.
         Inr \<lparr>sto_type = type, sto_field = field, payload_start = pos, payload_length = e - pos, sto_len = e + 1\<rparr>)
       else Inl (Reject pe_unknown_type_late))" if "sto_code bs0 = Inr (type, field, pos)" "pos < length bs0" for bs0
    using that ty by simp
  note old = Suc.prems(1) [unfolded unf [OF code lenbs]] and new = unf [OF code' len]
  consider (vl) "type = 8 \<or> type = 7 \<or> type = 18 \<or> type = 19" | (fixed) "type \<ge> 1 \<and> type \<le> 5 \<or> type = 16 \<or> type = 17"
    | (amount) "type = 6" | (nested) "type = 15 \<or> type = 14" using ty by linarith
  then show ?case
  proof cases
    case c: vl
    with old obtain len pos' where v: "sto_vl bs pos = Inr (len, pos')" and o: "obj = sto_simple type field pos' len"
      by (auto simp: res_simps)
    have "sto_vl bs' pos = Inr (len, pos')" by (rule vl [OF v]) (simp add: o sto_simple_def)
    then show ?thesis unfolding new using c o by simp
  next
    case c: fixed
    with old show ?thesis unfolding new by auto
  next
    case c: amount
    with old obtain b where b: "sto_byte bs pos = Inr b" and o: "obj = sto_simple type field pos (if b div 64 = 1 then 8 else 48)"
      by (auto simp: res_simps)
    have "sto_byte bs' pos = Inr b" using byte b o by (simp add: sto_simple_def)
    then show ?thesis unfolding new using c o by simp
  next
    case c: nested
    with old obtain e where e: "sto_items (get_stobject_length d) bs type 1024 pos = Inr e"
      and o: "obj = \<lparr>sto_type = type, sto_field = field, payload_start = pos, payload_length = e - pos, sto_len = e + 1\<rparr>"
      by (auto simp: res_simps)
    have "sto_items (get_stobject_length d) bs' type 1024 pos = Inr e" by (rule items [OF e]) (simp add: o)
    then show ?thesis unfolding new using c o by auto
  qed
qed simp

subsection \<open>An object as a list of fields\<close>

type_synonym sto_fields = "(sto_obj \<times> blob) list"

definition sto_bytes :: "sto_fields \<Rightarrow> blob" where
  "sto_bytes fs = concat (map snd fs)"

lemma sto_bytes_simps [simp]:
  "sto_bytes [] = []" "sto_bytes (p # fs) = snd p @ sto_bytes fs" "sto_bytes (fs @ gs) = sto_bytes fs @ sto_bytes gs"
  by (simp_all add: sto_bytes_def)

text \<open>Every field parses where it stands.\<close>

fun field_chain :: "sto_fields \<Rightarrow> bool" where
  "field_chain [] = True"
| "field_chain ((obj, f) # fs) \<longleftrightarrow>
     get_stobject_length sto_max_depth (f @ sto_bytes fs) = Inr obj \<and> sto_len obj = length f \<and> field_chain fs"

lemma field_chain_nonempty: "field_chain ((obj, f) # fs) \<Longrightarrow> 2 \<le> length f"
  using get_stobject_length_pos [of sto_max_depth "f @ sto_bytes fs" obj] by simp

text \<open>A field parses alike before any other bytes.\<close>

lemma field_swap:
  assumes "get_stobject_length d (f @ r) = Inr obj" "sto_len obj = length f" "r' \<noteq> []"
  shows "get_stobject_length d (f @ r') = Inr obj"
  using get_stobject_length_local [OF assms(1), of "f @ r'"] assms(2,3) by (simp add: agree_def)

lemma field_chain_prefix:
  assumes "field_chain (fs @ gs)" "sto_bytes gs' \<noteq> []" "field_chain gs'"
  shows "field_chain (fs @ gs')"
  using assms(1)
proof (induction fs)
  case (Cons p fs)
  obtain obj f where p: "p = (obj, f)" by (cases p)
  have "get_stobject_length sto_max_depth (f @ sto_bytes fs @ sto_bytes gs') = Inr obj"
    by (rule field_swap [of _ _ "sto_bytes (fs @ gs)"]) (use Cons.prems p assms(2) in auto)
  then show ?case using Cons p by simp
qed (use assms in simp)

lemma field_chain_append: "field_chain (fs @ gs) \<Longrightarrow> field_chain gs"
  by (induction fs) auto

subsection \<open>The loops on a list of fields\<close>

text \<open>A buffer at whose offset the fields follow until its end.\<close>

definition at_fields :: "blob \<Rightarrow> nat \<Rightarrow> sto_fields \<Rightarrow> bool" where
  "at_fields bs pos fs \<longleftrightarrow> pos \<le> length bs \<and> drop pos bs = sto_bytes fs \<and> field_chain fs"

lemma at_fields_nil: "at_fields bs pos [] \<longleftrightarrow> pos = length bs"
  by (auto simp: at_fields_def)

lemma at_fields_Cons:
  assumes "at_fields bs pos ((obj, f) # fs)"
  shows "pos < length bs" "get_stobject_length sto_max_depth (drop pos bs) = Inr obj" "sto_len obj = length f"
    "at_fields bs (pos + length f) fs"
proof -
  have d: "drop pos bs = f @ sto_bytes fs" and c: "field_chain ((obj, f) # fs)" using assms by (auto simp: at_fields_def)
  have n: "length bs - pos = length f + length (sto_bytes fs)" using arg_cong [OF d, of length] by simp
  show "pos < length bs" using n field_chain_nonempty [OF c] by simp
  show "get_stobject_length sto_max_depth (drop pos bs) = Inr obj" "sto_len obj = length f" using c d by auto
  have "drop (pos + length f) bs = sto_bytes fs" using d by (metis add.commute append_eq_conv_conj drop_drop)
  then show "at_fields bs (pos + length f) fs" using c n \<open>pos < length bs\<close> by (simp add: at_fields_def)
qed

lemma validate_fields: "at_fields bs pos fs \<Longrightarrow> length fs \<le> i \<Longrightarrow> validate_loop i bs pos = Inr 1"
proof (induction fs arbitrary: i pos)
  case Nil
  then show ?case by (cases i) (auto simp: at_fields_nil)
next
  case (Cons p fs)
  obtain obj f i' where p: "p = (obj, f)" and i: "i = Suc i'" using Cons.prems(2) by (cases p; cases i) auto
  note at = at_fields_Cons [OF Cons.prems(1) [unfolded p]]
  show ?case using Cons.IH [OF at(4), of i'] Cons.prems(2) at p i by (simp add: on_reject_def)
qed

lemma validate_complete:
  "validate_loop i bs pos = Inr 1 \<Longrightarrow> \<exists>fs. at_fields bs pos fs \<and> length fs \<le> i"
proof (induction i arbitrary: pos)
  case 0
  then show ?case by (auto simp: at_fields_nil split: if_splits intro!: exI [of _ "[]"])
next
  case (Suc i)
  show ?case
  proof (cases "pos < length bs")
    case True
    then obtain obj where obj: "get_stobject_length sto_max_depth (drop pos bs) = Inr obj"
      "validate_loop i bs (pos + sto_len obj) = Inr 1"
      using Suc.prems by (auto simp: on_reject_def split: sum.splits fault.splits)
    from Suc.IH [OF obj(2)] obtain fs where fs: "at_fields bs (pos + sto_len obj) fs" "length fs \<le> i" by blast
    let ?f = "take (sto_len obj) (drop pos bs)"
    have le: "pos + sto_len obj \<le> length bs" using fs(1) by (simp add: at_fields_def)
    have d: "drop pos bs = ?f @ sto_bytes fs"
      using fs(1) by (metis add.commute append_take_drop_id at_fields_def drop_drop)
    have "at_fields bs pos ((obj, ?f) # fs)"
      using d obj(1) le fs(1) True by (auto simp: at_fields_def)
    then show ?thesis using fs(2) by (intro exI [of _ "(obj, ?f) # fs"]) simp
  next
    case False
    then show ?thesis using Suc.prems by (auto simp: at_fields_nil split: if_splits intro!: exI [of _ "[]"])
  qed
qed

text \<open>The first field with a code, and its offset.\<close>

fun sto_find :: "int \<Rightarrow> sto_fields \<Rightarrow> nat \<Rightarrow> (nat \<times> sto_obj) option" where
  "sto_find field_id [] pos = None"
| "sto_find field_id ((obj, f) # fs) pos =
     (if field_code obj = field_id then Some (pos, obj) else sto_find field_id fs (pos + length f))"

definition sto_place :: "(nat \<times> sto_obj) option \<Rightarrow> int" where
  "sto_place r = (case r of None \<Rightarrow> DOESNT_EXIST | Some (pos, obj) \<Rightarrow>
     if sto_type obj = 0xF then int pos * 2 ^ 32 + int (sto_len obj)
     else int (pos + payload_start obj) * 2 ^ 32 + int (payload_length obj))"

lemma subfield_fields:
  "at_fields bs pos fs \<Longrightarrow> length fs \<le> i \<Longrightarrow> subfield_loop i bs pos fid = Inr (sto_place (sto_find fid fs pos))"
proof (induction fs arbitrary: i pos)
  case Nil
  then show ?case by (cases i) (auto simp: at_fields_nil sto_place_def)
next
  case (Cons p fs)
  obtain obj f i' where p: "p = (obj, f)" and i: "i = Suc i'" using Cons.prems(2) by (cases p; cases i) auto
  note at = at_fields_Cons [OF Cons.prems(1) [unfolded p]]
  show ?case using Cons.IH [OF at(4), of i'] Cons.prems(2) at p i by (simp add: on_reject_def sto_place_def)
qed

text \<open>The fields before the place of a code, and those from it on without the one that is replaced.\<close>

definition sto_before :: "int \<Rightarrow> sto_fields \<Rightarrow> sto_fields" where
  "sto_before field_id fs = takeWhile (\<lambda>(obj, f). field_code obj < field_id) fs"

definition sto_rest :: "int \<Rightarrow> sto_fields \<Rightarrow> sto_fields" where
  "sto_rest field_id fs = dropWhile (\<lambda>(obj, f). field_code obj < field_id) fs"

definition sto_after :: "int \<Rightarrow> sto_fields \<Rightarrow> sto_fields" where
  "sto_after field_id fs =
     (case sto_rest field_id fs of [] \<Rightarrow> [] | (obj, f) # gs \<Rightarrow> if field_code obj = field_id then gs else (obj, f) # gs)"

lemma sto_before_rest: "sto_before fid fs @ sto_rest fid fs = fs"
  by (simp add: sto_before_def sto_rest_def)

lemma emplace_fields:
  assumes "at_fields bs pos fs" "length fs \<le> i"
  shows "\<exists>p. emplace_loop i bs pos fid =
      Inr (p, pos + length (sto_bytes (sto_before fid fs)), length bs - length (sto_bytes (sto_after fid fs))) \<and> p \<le> length bs"
  using assms
proof (induction fs arbitrary: i pos)
  case Nil
  then show ?case by (cases i) (auto simp: at_fields_nil sto_before_def sto_after_def sto_rest_def)
next
  case (Cons p fs)
  obtain obj f i' where p: "p = (obj, f)" and i: "i = Suc i'" using Cons.prems(2) by (cases p; cases i) auto
  note at = at_fields_Cons [OF Cons.prems(1) [unfolded p]]
  have len: "length bs - length (sto_bytes fs) = pos + length f" "pos + length f \<le> length bs"
    using at(4) by (auto simp: at_fields_def dest!: arg_cong [of _ _ length])
  consider "field_code obj < fid" | "field_code obj = fid" | "field_code obj > fid" by linarith
  then show ?case
  proof cases
    case 1
    then show ?thesis
      using Cons.IH [OF at(4), of i'] Cons.prems(2) at(1-3) p i
      by (auto simp: sto_before_def sto_after_def sto_rest_def)
  next
    case 2
    then show ?thesis using at(1-3) p i len by (auto simp: sto_before_def sto_after_def sto_rest_def)
  next
    case 3
    then show ?thesis using at(1-3) p i len by (auto simp: sto_before_def sto_after_def sto_rest_def)
  qed
qed

end
