(* ===== verification/Hook_Sto_Update.thy ===== *)
theory Hook_Sto_Update
  imports Hook_Sto_Fields
begin

text \<open>
  The API functions on serialized objects: they read no byte outside of the hook's memory, and \<open>sto_emplace\<close>,
  \<open>sto_subfield\<close> and \<open>sto_erase\<close> act on the list of fields as insertion, lookup and removal.
\<close>

subsection \<open>Reads stay inside of the memory\<close>



lemma mem_read_length: "0 \<le> p \<Longrightarrow> 0 \<le> n \<Longrightarrow> p + n \<le> int (length mem) \<Longrightarrow> length (mem_read mem p n) = nat n"
  by (simp add: mem_read_def nat_le_iff le_diff_conv2)





subsection \<open>Writing the output\<close>

lemma mem_read_put_other:
  assumes "0 \<le> src" "0 \<le> len" "p + length d \<le> length mem" "src + len \<le> int p \<or> int (p + length d) \<le> src"
  shows "mem_read (mem_put mem p d) src len = mem_read mem src len"
proof (cases "src + len \<le> int p")
  case True
  then have "nat src + nat len \<le> p" using assms(1,2) by linarith
  then have "take (nat len + nat src) (mem_put mem p d) = take (nat len + nat src) mem"
    using assms(3) by (simp add: mem_put_def min_absorb1)
  then show ?thesis by (simp add: mem_read_def take_drop)
next
  case False
  then have "p + length d \<le> nat src" using assms(4) by linarith
  then have "drop (nat src) (mem_put mem p d) = drop (nat src) mem" using assms(3) by (simp add: mem_put_def)
  then show ?thesis by (simp add: mem_read_def)
qed

lemma emplace_part_ok:
  assumes "copies sd" "0 \<le> wp" "0 \<le> src" "0 \<le> len" "wp + wl \<le> int (length mem)" "src + len \<le> int (length mem)"
    "src + len \<le> wp \<or> wp + wl \<le> src \<or> len = 0" "int (length acc) + len \<le> wl"
  shows "emplace_part sd wp wl src len (int (length acc), mem_put mem (nat wp) acc) =
    Inr (int (length (acc @ mem_read mem src len)), mem_put mem (nat wp) (acc @ mem_read mem src len))"
proof (cases "len = 0")
  case True
  then show ?thesis by (simp add: emplace_part_def mem_read_def)
next
  case False
  let ?m = "mem_put mem (nat wp) acc" and ?x = "mem_read mem src len"
  have room: "nat wp + length acc + nat len \<le> length mem" using assms by linarith
  have len: "int (length ?x) = len" using mem_read_length [of src len mem] assms by simp
  have x: "mem_read ?m src len = ?x" by (rule mem_read_put_other) (use assms room False in auto)
  have "WRITE_WASM_MEMORY sd (int (length acc)) (wp + int (length acc)) (wl - int (length acc)) ?x ?m =
      Inr (int (length acc) + int (length ?x), mem_put ?m (nat (wp + int (length acc))) ?x)"
    by (rule write_wasm_ok) (use assms len room in auto)
  moreover have "nat (wp + int (length acc)) = nat wp + length acc" using assms(2) by simp
  moreover have "mem_put ?m (nat wp + length acc) ?x = mem_put mem (nat wp) (acc @ ?x)"
    by (rule mem_put_append) (use room len in auto)
  ultimately show ?thesis using False assms(4) x by (simp add: emplace_part_def)
qed

lemma mem_put_nil [simp]: "p \<le> length mem \<Longrightarrow> mem_put mem p [] = mem"
  by (simp add: mem_put_def)

text \<open>What the checks of the arguments ensure.\<close>

lemma emplace_args_ok:
  assumes "emplace_args mem wp wl sp sl fp fl = Inr ()" "0 \<le> wp" "0 \<le> sp" "0 \<le> fp" "0 \<le> fl" "int (length mem) < 2 ^ 32"
  shows "wp + wl \<le> int (length mem)" "sp + sl \<le> int (length mem)" "fp + fl \<le> int (length mem)" "2 \<le> sl" "sl + fl \<le> wl"
    "sp + sl \<le> wp \<or> wp + wl \<le> sp" "fp + fl \<le> wp \<or> wp + wl \<le> fp \<or> fl = 0"
proof -
  have b: "wp + wl \<le> int (length mem)" "sp + sl \<le> int (length mem)" "fp + fl \<le> int (length mem)" "2 \<le> sl"
    using assms(1) by (auto simp: emplace_args_def Let_def NOT_IN_BOUNDS_def split: if_splits)
  have small: "sl \<le> 16384" "fl \<le> 4096" using assms(1) by (auto simp: emplace_args_def Let_def split: if_splits)
  then have u: "u32 (sl + fl) = sl + fl" using b(4) assms(5) by simp
  then have le: "sl + fl \<le> wl" using assms(1) by (auto simp: emplace_args_def Let_def split: if_splits)
  have u': "u32 (wp + wl) = wp + wl" "u32 (sp + sl) = sp + sl" "u32 (fp + fl) = fp + fl"
    using b le assms(2-6) by simp_all
  show "sp + sl \<le> wp \<or> wp + wl \<le> sp" "fp + fl \<le> wp \<or> wp + wl \<le> fp \<or> fl = 0"
    using assms(1) unfolding emplace_args_def Let_def u' by (auto simp: res_simps split: if_splits)
  show "wp + wl \<le> int (length mem)" "sp + sl \<le> int (length mem)" "fp + fl \<le> int (length mem)" "2 \<le> sl" "sl + fl \<le> wl"
    using b le by auto
qed

subsection \<open>Insertion, lookup and removal\<close>

definition emplaced :: "int \<Rightarrow> blob \<Rightarrow> sto_fields \<Rightarrow> blob" where
  "emplaced field_id f fs = sto_bytes (sto_before field_id fs) @ f @ sto_bytes (sto_after field_id fs)"

lemma sto_after_le: "length (sto_bytes (sto_before fid fs)) + length (sto_bytes (sto_after fid fs)) \<le> length (sto_bytes fs)"
proof -
  have "sto_bytes fs = sto_bytes (sto_before fid fs) @ sto_bytes (sto_rest fid fs)"
    by (metis sto_before_rest sto_bytes_simps(3))
  moreover have "length (sto_bytes (sto_after fid fs)) \<le> length (sto_bytes (sto_rest fid fs))"
    by (auto simp: sto_after_def split: list.splits)
  ultimately show ?thesis by simp
qed

lemma sto_before_read:
  assumes "mem_read mem sp sl = sto_bytes fs"
  shows "mem_read mem sp (int (length (sto_bytes (sto_before fid fs)))) = sto_bytes (sto_before fid fs)"
proof -
  let ?b = "sto_bytes (sto_before fid fs)"
  have s: "sto_bytes fs = ?b @ sto_bytes (sto_rest fid fs)" by (metis sto_before_rest sto_bytes_simps(3))
  have "length ?b \<le> nat sl" using arg_cong [OF assms, of length] s by (simp add: mem_read_def)
  then have "take (length ?b) (mem_read mem sp sl) = take (length ?b) (drop (nat sp) mem)" by (simp add: mem_read_def min_absorb1)
  moreover have "take (length ?b) (mem_read mem sp sl) = ?b" unfolding assms s by simp
  ultimately show ?thesis by (simp add: mem_read_def)
qed

lemma sto_after_suffix: "\<exists>m. sto_bytes fs = m @ sto_bytes (sto_after fid fs)"
proof -
  have "\<exists>m. sto_rest fid fs = m @ sto_after fid fs" by (auto simp: sto_after_def split: list.splits)
  then obtain m where "sto_rest fid fs = m @ sto_after fid fs" by blast
  then show ?thesis by (metis append_assoc sto_before_rest sto_bytes_simps(3))
qed

lemma sto_after_read:
  assumes "mem_read mem sp sl = sto_bytes fs" "0 \<le> sp" "0 \<le> sl" "sp + sl \<le> int (length mem)"
    and "n = length (sto_bytes (sto_after fid fs))"
  shows "mem_read mem (sp + (sl - int n)) (int n) = sto_bytes (sto_after fid fs)"
proof -
  obtain m where m: "sto_bytes fs = m @ sto_bytes (sto_after fid fs)" using sto_after_suffix by blast
  have len: "nat sl = length m + n" using mem_read_length [OF assms(2-4)] assms(1,5) m by simp
  then have p: "nat (sp + (sl - int n)) = length m + nat sp" using assms(2,3) by linarith
  have "take (length m + n) (drop (nat sp) mem) = m @ sto_bytes (sto_after fid fs)" using assms(1) m len by (simp add: mem_read_def)
  then have "drop (length m) (take (length m + n) (drop (nat sp) mem)) = sto_bytes (sto_after fid fs)" by simp
  then show ?thesis by (simp add: mem_read_def p drop_take)
qed

lemma sto_emplace_ok:
  assumes sd: "copies sd" and pos: "0 \<le> wp" "0 \<le> sp" "0 \<le> fp" "0 \<le> fl" and small: "int (length mem) < 2 ^ 32"
    and args: "emplace_args mem wp wl sp sl fp fl = Inr ()"
    and obj: "mem_read mem sp sl = sto_bytes fs" "field_chain fs" "length fs \<le> 1024"
  shows "sto_emplace sd mem wp wl sp sl fp fl fid =
      Inr (int (length (emplaced fid (mem_read mem fp fl) fs)), mem_put mem (nat wp) (emplaced fid (mem_read mem fp fl) fs)) \<and>
    length (emplaced fid (mem_read mem fp fl) fs) \<le> nat wl"
proof -
  note ok = emplace_args_ok [OF args pos small]
  let ?b = "sto_bytes (sto_before fid fs)" and ?a = "sto_bytes (sto_after fid fs)" and ?f = "mem_read mem fp fl"
  have len: "length (mem_read mem sp sl) = nat sl" using mem_read_length [of sp sl mem] pos ok by simp
  then have le: "length ?b + length ?a \<le> nat sl" using sto_after_le [of fid fs] obj(1) by simp
  have fl: "length ?f = nat fl" using mem_read_length [of fp fl mem] pos ok by simp
  obtain p where p: "emplace_loop 1024 (mem_read mem sp sl) 0 fid = Inr (p, length ?b, nat sl - length ?a)" "p \<le> nat sl"
    using emplace_fields [of "mem_read mem sp sl" 0 fs 1024 fid] obj len by (auto simp: at_fields_def)
  have le': "int (length ?b) + int (length ?a) \<le> sl" using le ok by linarith
  have e: "int (nat sl - length ?a) = sl - int (length ?a)" using le ok by linarith
  have r0: "(0, mem) = (int (length ([] :: blob)), mem_put mem (nat wp) [])" using pos ok by simp
  have p1: "emplace_part sd wp wl sp (int (length ?b)) (0, mem) = Inr (int (length ?b), mem_put mem (nat wp) ?b)"
    unfolding r0 using emplace_part_ok [OF sd, of wp sp "int (length ?b)" wl mem "[]"] sto_before_read [OF obj(1), of fid] pos ok le' by auto
  have p2: "emplace_part sd wp wl fp fl (int (length ?b), mem_put mem (nat wp) ?b) =
      Inr (int (length (?b @ ?f)), mem_put mem (nat wp) (?b @ ?f))"
    using emplace_part_ok [OF sd, of wp fp fl wl mem ?b] pos ok le' by auto
  have ra: "mem_read mem (sp + (sl - int (length ?a))) (int (length ?a)) = ?a"
    using sto_after_read [OF obj(1) _ _ _ refl] pos ok by simp
  have "emplace_part sd wp wl (sp + (sl - int (length ?a))) (int (length ?a)) (int (length (?b @ ?f)), mem_put mem (nat wp) (?b @ ?f)) =
      Inr (int (length ((?b @ ?f) @ ?a)), mem_put mem (nat wp) ((?b @ ?f) @ ?a))"
    using emplace_part_ok [OF sd, of wp "sp + (sl - int (length ?a))" "int (length ?a)" wl mem "?b @ ?f"] ra pos ok le' fl by auto
  then have "emplace_write sd mem wp wl sp sl fp fl (length ?b) (nat sl - length ?a) =
      (int (length (emplaced fid ?f fs)), mem_put mem (nat wp) (emplaced fid ?f fs))"
    unfolding emplace_write_def e p1 by (simp add: p2 emplaced_def algebra_simps)
  moreover have "length (emplaced fid ?f fs) \<le> nat wl" using le fl ok pos by (simp add: emplaced_def)
  ultimately show ?thesis using p args len ok by (simp add: sto_emplace_def)
qed

text \<open>The fields of the result, when a field with that code is put in.\<close>

lemma emplaced_chain:
  assumes "field_chain fs" "get_stobject_length sto_max_depth f = Inr obj" "sto_len obj = length f"
  shows "emplaced fid f fs = sto_bytes (sto_before fid fs @ (obj, f) # sto_after fid fs)"
    "field_chain (sto_before fid fs @ (obj, f) # sto_after fid fs)"
proof -
  have "2 \<le> length f" using get_stobject_length_pos [OF assms(2)] assms(3) by simp
  then have ne: "sto_bytes ((obj, f) # sto_after fid fs) \<noteq> []" by auto
  have all: "field_chain (sto_before fid fs @ sto_rest fid fs)" using assms(1) by (simp add: sto_before_rest)
  then have "field_chain (sto_rest fid fs)" by (rule field_chain_append)
  then have "field_chain (sto_after fid fs)" by (auto simp: sto_after_def split: list.splits)
  moreover have "get_stobject_length sto_max_depth (f @ sto_bytes (sto_after fid fs)) = Inr obj"
    using field_swap [of sto_max_depth f "[]" obj "sto_bytes (sto_after fid fs)"] assms(2,3)
    by (cases "sto_bytes (sto_after fid fs) = []") auto
  ultimately have "field_chain ((obj, f) # sto_after fid fs)" using assms(3) by simp
  then show "field_chain (sto_before fid fs @ (obj, f) # sto_after fid fs)"
    by (rule field_chain_prefix [OF all ne])
qed (simp add: emplaced_def)

lemma before_below: "(obj, f) \<in> set (sto_before fid fs) \<Longrightarrow> field_code obj < fid"
  using set_takeWhileD [of "(obj, f)" "\<lambda>(obj, f). field_code obj < fid" fs] by (auto simp: sto_before_def)

lemma sto_find_append:
  "(\<And>obj f. (obj, f) \<in> set fs \<Longrightarrow> field_code obj \<noteq> fid) \<Longrightarrow> sto_find fid (fs @ gs) pos = sto_find fid gs (pos + length (sto_bytes fs))"
proof (induction fs arbitrary: pos)
  case (Cons p fs)
  obtain obj f where p: "p = (obj, f)" by (cases p)
  have "field_code obj \<noteq> fid" using Cons.prems p by auto
  moreover have "sto_find fid (fs @ gs) (pos + length f) = sto_find fid gs (pos + length f + length (sto_bytes fs))"
    by (rule Cons.IH) (use Cons.prems in auto)
  ultimately show ?case using p by (simp add: ac_simps)
qed simp

lemma emplaced_find:
  "field_code obj = fid \<Longrightarrow>
   sto_find fid (sto_before fid fs @ (obj, f) # gs) 0 = Some (length (sto_bytes (sto_before fid fs)), obj)"
  using sto_find_append [of "sto_before fid fs" fid] before_below [of _ _ fid fs] by fastforce

lemma emplaced_again:
  assumes "field_code obj = fid"
  shows "sto_before fid (sto_before fid fs @ (obj, f) # gs) = sto_before fid fs"
    "sto_after fid (sto_before fid fs @ (obj, f) # gs) = gs"
proof -
  have P: "\<forall>x \<in> set (sto_before fid fs). (\<lambda>(obj, f). field_code obj < fid) x" using before_below [of _ _ fid fs] by auto
  show "sto_before fid (sto_before fid fs @ (obj, f) # gs) = sto_before fid fs"
    unfolding sto_before_def [of _ "_ @ _"] using P assms by (simp add: takeWhile_append2)
  have "sto_rest fid (sto_before fid fs @ (obj, f) # gs) = (obj, f) # gs"
    unfolding sto_rest_def using P assms by (simp add: dropWhile_append2)
  then show "sto_after fid (sto_before fid fs @ (obj, f) # gs) = gs" using assms by (simp add: sto_after_def)
qed

lemma emplaced_few: "length (sto_before fid fs @ x # sto_after fid fs) \<le> length fs + 1"
proof -
  have "length fs = length (sto_before fid fs) + length (sto_rest fid fs)" by (metis length_append sto_before_rest)
  moreover have "length (sto_after fid fs) \<le> length (sto_rest fid fs)" by (auto simp: sto_after_def split: list.splits)
  ultimately show ?thesis by simp
qed

text \<open>
  What the properties assume of a call of \<open>sto_emplace\<close>: the checks of the arguments pass, the memory has less than
  $2^{32}$ bytes, and the source is an object of at most 1024 complete fields.
\<close>

definition emplace_call :: "blob \<Rightarrow> int \<Rightarrow> int \<Rightarrow> int \<Rightarrow> int \<Rightarrow> int \<Rightarrow> int \<Rightarrow> sto_fields \<Rightarrow> bool" where
  "emplace_call mem wp wl sp sl fp fl fs \<longleftrightarrow>
     0 \<le> wp \<and> 0 \<le> sp \<and> 0 \<le> fp \<and> 0 \<le> fl \<and> int (length mem) < 2 ^ 32 \<and> emplace_args mem wp wl sp sl fp fl = Inr () \<and>
     mem_read mem sp sl = sto_bytes fs \<and> field_chain fs \<and> length fs \<le> 1024"

lemma emplace_call_ok:
  assumes "copies sd" "emplace_call mem wp wl sp sl fp fl fs"
  shows "sto_emplace sd mem wp wl sp sl fp fl fid =
      Inr (int (length (emplaced fid (mem_read mem fp fl) fs)), mem_put mem (nat wp) (emplaced fid (mem_read mem fp fl) fs))"
    "nat wp + length (emplaced fid (mem_read mem fp fl) fs) \<le> length mem"
proof -
  have c: "0 \<le> wp" "0 \<le> sp" "0 \<le> fp" "0 \<le> fl" "int (length mem) < 2 ^ 32" "emplace_args mem wp wl sp sl fp fl = Inr ()"
    "mem_read mem sp sl = sto_bytes fs" "field_chain fs" "length fs \<le> 1024" using assms(2) by (auto simp: emplace_call_def)
  note ok = sto_emplace_ok [OF assms(1) c, of fid]
  then show "sto_emplace sd mem wp wl sp sl fp fl fid =
      Inr (int (length (emplaced fid (mem_read mem fp fl) fs)), mem_put mem (nat wp) (emplaced fid (mem_read mem fp fl) fs))" by simp
  have "wp + wl \<le> int (length mem)" "2 \<le> sl" "sl + fl \<le> wl" using emplace_args_ok [OF c(6) c(1-5)] by auto
  then show "nat wp + length (emplaced fid (mem_read mem fp fl) fs) \<le> length mem" using ok c(1,4) by linarith
qed

text \<open>
  C11. \<open>sto_emplace\<close> is insertion into the list of fields: on a complete object it writes to the buffer the fields with
  a smaller code, then the field that is put in, then the rest, of which a field with the same code is left out; it
  returns the number of bytes and changes nothing else. With no field to put in, it removes the one with that code.
\<close>

theorem sto_emplace_fields:
  assumes "copies sd" "emplace_call mem wp wl sp sl fp fl fs"
    and "out = sto_bytes (sto_before field_id fs) @ mem_read mem fp fl @ sto_bytes (sto_after field_id fs)"
  shows "sto_emplace sd mem wp wl sp sl fp fl field_id = Inr (int (length out), mem_put mem (nat wp) out)"
  using emplace_call_ok(1) [OF assms(1,2)] unfolding assms(3) emplaced_def .

text \<open>A memory with an object of two fields at 0, a third field at 8, and room for the result at 12.\<close>

definition example_mem :: blob where
  "example_mem = [0x12, 0, 5, 0x24, 0, 0, 0, 9, 0x13, 0, 7, 0] @ replicate 20 0"

definition example_fields :: sto_fields where
  "example_fields = [(sto_simple 1 2 1 2, [0x12, 0, 5]), (sto_simple 2 4 1 4, [0x24, 0, 0, 0, 9])]"

lemma example_call: "emplace_call example_mem 12 11 0 8 8 3 example_fields"
proof -
  have "get_stobject_length sto_max_depth [0x12, 0, 5, 0x24, 0, 0, 0, 9] = Inr (sto_simple 1 2 1 2)"
    "get_stobject_length sto_max_depth [0x24, 0, 0, 0, 9] = Inr (sto_simple 2 4 1 4)" by code_simp+
  then have "field_chain example_fields" by (simp add: example_fields_def) (simp add: sto_simple_def)
  moreover have "emplace_args example_mem 12 11 0 8 8 3 = Inr ()" by code_simp
  moreover have "mem_read example_mem 0 8 = sto_bytes example_fields" by code_simp
  moreover have "int (length example_mem) < 2 ^ 32" "length example_fields \<le> 1024"
    by (simp_all add: example_mem_def example_fields_def)
  ultimately show ?thesis by (simp add: emplace_call_def)
qed

lemma example_before: "sto_before 65539 example_fields = [(sto_simple 1 2 1 2, [0x12, 0, 5])]"
  and example_after: "sto_after 65539 example_fields = [(sto_simple 2 4 1 4, [0x24, 0, 0, 0, 9])]"
  by (simp_all add: sto_before_def sto_after_def sto_rest_def example_fields_def field_code_def sto_simple_def)

lemma example_field: "mem_read example_mem 8 3 = [0x13, 0, 7]"
  by code_simp

theorem sto_emplace_fields_witness:
  "sto_emplace put_data example_mem 12 11 0 8 8 3 65539 =
     Inr (11, mem_put example_mem 12 [0x12, 0, 5, 0x13, 0, 7, 0x24, 0, 0, 0, 9])"
  using sto_emplace_fields [OF copies_put_data example_call refl, of 65539]
  by (simp add: example_before example_after example_field)

text \<open>
  C10. What is put in is found again. After \<open>sto_emplace\<close> of a complete field with its code into a complete object of
  less than 1024 fields, the result is a complete object, and \<open>sto_subfield\<close> with that code gives the place of the
  field inside of the result: of its payload, and for an array of the field as a whole.
\<close>

theorem sto_subfield_emplace:
  assumes "copies sd" "emplace_call mem wp wl sp sl fp fl fs" "length fs < 1024"
    and "get_stobject_length sto_max_depth (mem_read mem fp fl) = Inr obj" "sto_len obj = length (mem_read mem fp fl)"
      "field_code obj = field_id"
    and "sto_emplace sd mem wp wl sp sl fp fl field_id = Inr (n, mem')"
  shows "sto_validate mem' wp n = Inr 1 \<and>
    sto_subfield mem' wp n field_id =
      Inr (let pos = length (sto_bytes (sto_before field_id fs)) in
           if sto_type obj = 0xF then int pos * 2 ^ 32 + n - int (pos + length (sto_bytes (sto_after field_id fs)))
           else int (pos + payload_start obj) * 2 ^ 32 + int (payload_length obj))"
proof -
  let ?f = "mem_read mem fp fl" and ?b = "sto_before field_id fs" and ?a = "sto_after field_id fs"
  let ?out = "emplaced field_id ?f fs"
  have wp: "0 \<le> wp" and chain: "field_chain fs" using assms(2) by (auto simp: emplace_call_def)
  have n: "n = int (length ?out)" "mem' = mem_put mem (nat wp) ?out" and le: "nat wp + length ?out \<le> length mem"
    using emplace_call_ok [OF assms(1,2)] assms(7) by auto
  note out = emplaced_chain [OF chain assms(4,5), of field_id]
  have "2 \<le> length ?f" using get_stobject_length_pos [OF assms(4)] assms(5) by simp
  then have two: "2 \<le> n" by (simp add: n emplaced_def)
  have read: "mem_read mem' wp n = ?out" using mem_read_put [OF le] wp by (simp add: n)
  have bound: "\<not> NOT_IN_BOUNDS wp n mem'" using le wp two unfolding NOT_IN_BOUNDS_def n by simp linarith
  have at: "at_fields ?out 0 (?b @ (obj, ?f) # ?a)" using out by (simp add: at_fields_def)
  have few: "length (?b @ (obj, ?f) # ?a) \<le> 1024" using emplaced_few [of field_id fs "(obj, ?f)"] assms(3) by linarith
  have "int (sto_len obj) = n - int (length (sto_bytes ?b) + length (sto_bytes ?a))"
    using assms(5) by (simp add: n emplaced_def)
  then show ?thesis
    using bound two validate_fields [OF at few] subfield_fields [OF at few, of field_id] emplaced_find [OF assms(6), of fs ?f ?a]
    by (simp add: sto_validate_def sto_subfield_def read sto_place_def Let_def)
qed

theorem sto_subfield_emplace_witness:
  "sto_subfield (mem_put example_mem 12 [0x12, 0, 5, 0x13, 0, 7, 0x24, 0, 0, 0, 9]) 12 11 65539 = Inr (4 * 2 ^ 32 + 2)"
proof -
  have g: "get_stobject_length sto_max_depth (mem_read example_mem 8 3) = Inr (sto_simple 1 3 1 2)" by code_simp
  have e: "sto_emplace put_data example_mem 12 11 0 8 8 3 65539 =
      Inr (11, mem_put example_mem 12 [0x12, 0, 5, 0x13, 0, 7, 0x24, 0, 0, 0, 9])" by code_simp
  show ?thesis
    using sto_subfield_emplace [OF copies_put_data example_call _ g _ _ e]
    by (simp add: example_fields_def example_field sto_simple_def field_code_def)
       (simp add: sto_before_def sto_simple_def field_code_def)
qed

text \<open>
  C16. \<open>sto_erase\<close> undoes \<open>sto_emplace\<close>: erasing the field that was put into an object with no field of that code
  writes the bytes of the object as it was.
\<close>

theorem sto_erase_emplace:
  assumes "copies sd" "emplace_call mem wp wl sp sl fp fl fs" "length fs < 1024"
    and "get_stobject_length sto_max_depth (mem_read mem fp fl) = Inr obj" "sto_len obj = length (mem_read mem fp fl)"
      "field_code obj = field_id"
    and absent: "\<forall>(obj, f) \<in> set fs. field_code obj \<noteq> field_id"
    and "sto_emplace sd mem wp wl sp sl fp fl field_id = Inr (n, mem')"
    and dest: "0 \<le> dp" "emplace_args mem' dp dl wp n 0 0 = Inr ()"
  shows "sto_erase sd mem' dp dl wp n field_id = Inr (sl, mem_put mem' (nat dp) (mem_read mem sp sl))"
proof -
  let ?f = "mem_read mem fp fl" and ?b = "sto_before field_id fs" and ?a = "sto_after field_id fs"
  let ?out = "emplaced field_id ?f fs" and ?gs = "?b @ (obj, ?f) # ?a"
  have wp: "0 \<le> wp" and chain: "field_chain fs" and src: "mem_read mem sp sl = sto_bytes fs" and small: "int (length mem) < 2 ^ 32"
    using assms(2) by (auto simp: emplace_call_def)
  have sl: "int (length (sto_bytes fs)) = sl"
  proof -
    have "0 \<le> sp" "sp + sl \<le> int (length mem)" "2 \<le> sl"
      using assms(2) emplace_args_ok [of mem wp wl sp sl fp fl] by (auto simp: emplace_call_def)
    then show ?thesis using mem_read_length [of sp sl mem] src by simp
  qed
  have n: "n = int (length ?out)" "mem' = mem_put mem (nat wp) ?out" and le: "nat wp + length ?out \<le> length mem"
    using emplace_call_ok [OF assms(1,2)] assms(8) by auto
  note out = emplaced_chain [OF chain assms(4,5), of field_id]
  have read: "mem_read mem' wp n = ?out" using mem_read_put [OF le] wp by (simp add: n)
  have few: "length ?gs \<le> 1024" using emplaced_few [of field_id fs "(obj, ?f)"] assms(3) by linarith
  have "length mem' = length mem" using le by (simp add: n)
  then have call: "emplace_call mem' dp dl wp n 0 0 ?gs"
    unfolding emplace_call_def using read out few dest wp small by simp
  have a: "?a = sto_rest field_id fs"
  proof (cases "sto_rest field_id fs")
    case (Cons p r)
    then have "p \<in> set fs" by (metis dropWhile_eq_Cons_conv in_set_conv_decomp sto_before_rest)
    with absent Cons show ?thesis by (auto simp: sto_after_def)
  qed (simp add: sto_after_def)
  have "emplaced field_id (mem_read mem' 0 0) ?gs = sto_bytes fs"
    unfolding emplaced_def emplaced_again [OF assms(6)] a
    by (metis append_Nil mem_read_def nat_0 sto_before_rest sto_bytes_simps(3) take0)
  then have e: "sto_emplace sd mem' dp dl wp n 0 0 field_id = Inr (sl, mem_put mem' (nat dp) (sto_bytes fs))"
    using emplace_call_ok(1) [OF assms(1) call, of field_id] sl by simp
  have "sto_bytes fs = sto_bytes ?b @ sto_bytes ?a" unfolding a by (metis sto_before_rest sto_bytes_simps(3))
  moreover have "2 \<le> length ?f" using get_stobject_length_pos [OF assms(4)] assms(5) by simp
  ultimately have "sl \<noteq> n" using sl by (simp add: n emplaced_def)
  then show ?thesis using e src by (simp add: sto_erase_def)
qed

theorem sto_erase_emplace_witness:
  "sto_erase put_data (mem_put example_mem 12 [0x12, 0, 5, 0x13, 0, 7, 0x24, 0, 0, 0, 9]) 0 11 12 11 65539 =
     Inr (8, mem_put (mem_put example_mem 12 [0x12, 0, 5, 0x13, 0, 7, 0x24, 0, 0, 0, 9]) 0 [0x12, 0, 5, 0x24, 0, 0, 0, 9])"
proof -
  have g: "get_stobject_length sto_max_depth (mem_read example_mem 8 3) = Inr (sto_simple 1 3 1 2)" by code_simp
  have e: "sto_emplace put_data example_mem 12 11 0 8 8 3 65539 =
      Inr (11, mem_put example_mem 12 [0x12, 0, 5, 0x13, 0, 7, 0x24, 0, 0, 0, 9])" by code_simp
  have a: "emplace_args (mem_put example_mem 12 [0x12, 0, 5, 0x13, 0, 7, 0x24, 0, 0, 0, 9]) 0 11 12 11 0 0 = Inr ()" by code_simp
  have m: "mem_read example_mem 0 8 = [0x12, 0, 5, 0x24, 0, 0, 0, 9]" by code_simp
  show ?thesis
    using sto_erase_emplace [OF copies_put_data example_call _ g _ _ _ e _ a] unfolding m
    by (simp add: example_fields_def example_field sto_simple_def field_code_def)
qed

subsection \<open>Objects the parser gets wrong\<close>

text \<open>An empty array: its end marker is taken for a field.\<close>

lemma sto_validate_empty_array: "sto_validate [0x12, 0, 5, 0xF9, 0xF1] 0 5 = Inr 0"
  by code_simp

text \<open>An empty blob is accepted everywhere but at the end of an object.\<close>

lemma sto_validate_last_empty_blob:
  "sto_validate [0x73, 0, 0x12, 0, 5] 0 5 = Inr 1" "sto_validate [0x12, 0, 5, 0x73, 0] 0 5 = Inr 0"
  by code_simp+

text \<open>The length of a blob is not compared with the buffer: the payload reported for this one ends at 102 of 3 bytes.\<close>

lemma sto_subfield_outside: "sto_subfield [0x71, 100, 0] 0 3 (7 * 2 ^ 16 + 1) = Inr (2 * 2 ^ 32 + 100)"
  by code_simp

text \<open>An array whose field code has two bytes: the first element is at 2 and has 5 bytes.\<close>

lemma sto_subarray_two_byte_code:
  "sto_subarray [0xF0, 0x10, 0xEA, 0x12, 0, 5, 0xE1, 0xF1] 0 8 0 = Inr (1 * 2 ^ 32 + 4)"
  by code_simp

text \<open>A path set of one account: its first byte is taken for a length.\<close>

lemma sto_validate_path_set: "sto_validate ([0x01, 0x12, 0x01] @ replicate 20 9 @ [0]) 0 24 = Inr 0"
  by code_simp

end
