(* ===== verification/Hook_Slot.thy ===== *)
theory Hook_Slot
  imports Xfl Ordered_Map
begin

text \<open>
  The slots of a hook: \<open>otxn_slot\<close>, \<open>meta_slot\<close>, \<open>xpop_slot\<close> and the \<open>slot\<close> functions of
  \<^verbatim>\<open>src/src/ripple/app/hook/impl/applyHook.cpp\<close>. A slot holds an object that stays alive as long as the slot, and a
  pointer to the object or to a part of it. The objects are not changed, so that the pointer is modelled by the part
  itself. The bytes of a part, \<open>ser\<close>, are a parameter, as are the ledger, the transactions and the known field codes.
\<close>

subsection \<open>Objects\<close>

datatype amount = Native int | Issued IOUAmount

datatype stbase =
    St_leaf (fname: int) int blob
  | St_amount (fname: int) amount blob
  | St_object (fname: int) int "(int \<times> stbase) list"
  | St_array (fname: int) "stbase list"

fun getSType :: "stbase \<Rightarrow> int" where
  "getSType (St_leaf f t bs) = t"
| "getSType (St_amount f a bs) = 6"
| "getSType (St_object f t fs) = t"
| "getSType (St_array f xs) = 15"

abbreviation (input) STI_AMOUNT :: int where "STI_AMOUNT \<equiv> 6"
abbreviation (input) STI_ACCOUNT :: int where "STI_ACCOUNT \<equiv> 8"
abbreviation (input) STI_ARRAY :: int where "STI_ARRAY \<equiv> 15"

record slot_entry =
  storage :: stbase
  entry :: "stbase option"

record slot_ctx =
  slots_of :: "(int \<times> slot_entry) list"
  slot_free :: "int list"
  slot_counter :: int

definition no_slots :: slot_ctx where
  "no_slots = \<lparr>slots_of = [], slot_free = [], slot_counter = 0\<rparr>"

definition in_slot :: "stbase \<Rightarrow> slot_entry" where
  "in_slot st = \<lparr>storage = st, entry = Some st\<rparr>"

subsection \<open>Free slots\<close>

text \<open>The difference is one of unsigned integers.\<close>

definition no_free_slots :: "slot_ctx \<Rightarrow> bool" where
  "no_free_slots H \<longleftrightarrow> u64 (max_slots - int (length (slots_of H))) \<le> 0"

lemma u32_next: "c \<le> 255 \<Longrightarrow> c < u32 (c + 1)"
proof (cases "0 \<le> c")
  case False
  moreover have "0 \<le> u32 (c + 1)" by (simp add: u32_def)
  ultimately show ?thesis by linarith
qed (simp add: u32_def)

text \<open>The loop that increments the counter until it finds a slot that is not used, or has passed the last.\<close>

function count_slot :: "(int \<times> slot_entry) list \<Rightarrow> int \<Rightarrow> int" where
  "count_slot m c =
     (let c' = u32 (c + 1) in if map_of m (s32 c') \<noteq> None \<and> c' \<le> max_slots then count_slot m c' else c')"
  by auto
termination
proof (relation "measure (\<lambda>(m, c). if c > 255 then 257 else nat (256 - c))")
  fix m :: "(int \<times> slot_entry) list" and c c' :: int
  assume c': "c' = u32 (c + 1)" and le: "map_of m (s32 c') \<noteq> None \<and> c' \<le> max_slots"
  have "0 \<le> c'" by (simp add: c' u32_def)
  then show "((m, c'), m, c) \<in> measure (\<lambda>(m, c). if c > 255 then 257 else nat (256 - c))"
    using le u32_next [of c] by (auto simp: c' max_slots_def)
qed simp

declare count_slot.simps [simp del]

definition get_free_slot :: "slot_ctx \<Rightarrow> int option \<times> slot_ctx" where
  "get_free_slot H =
     (case slot_free H of
        n # free \<Rightarrow> (Some n, H\<lparr>slot_free := free\<rparr>)
      | [] \<Rightarrow>
          let c = count_slot (slots_of H) (slot_counter H); H = H\<lparr>slot_counter := c\<rparr>
          in if c > max_slots then (None, H) else (Some (s32 c), H))"

definition take_slot :: "int \<Rightarrow> slot_ctx \<Rightarrow> int option \<times> slot_ctx" where
  "take_slot slot_into H = (if slot_into = 0 then get_free_slot H else (Some slot_into, H))"

definition put_slot :: "int \<Rightarrow> slot_entry \<Rightarrow> slot_ctx \<Rightarrow> slot_ctx" where
  "put_slot n e H = H\<lparr>slots_of := map_put n e (slots_of H)\<rparr>"

definition into_slot :: "int \<Rightarrow> slot_entry \<Rightarrow> slot_ctx \<Rightarrow> int \<times> slot_ctx" where
  "into_slot slot_into e H =
     (case take_slot slot_into H of (None, H) \<Rightarrow> (NO_FREE_SLOTS, H) | (Some n, H) \<Rightarrow> (n, put_slot n e H))"

subsection \<open>Objects into slots\<close>

definition otxn_slot :: "stbase option \<Rightarrow> stbase \<Rightarrow> int \<Rightarrow> slot_ctx \<Rightarrow> int \<times> slot_ctx" where
  "otxn_slot emitFailure tx slot_into H =
     (if slot_into > max_slots then (INVALID_ARGUMENT, H)
      else if slot_into = 0 \<and> no_free_slots H then (NO_FREE_SLOTS, H)
      else into_slot slot_into (in_slot (case emitFailure of Some st \<Rightarrow> st | None \<Rightarrow> tx)) H)"

definition meta_slot :: "stbase option \<Rightarrow> int \<Rightarrow> slot_ctx \<Rightarrow> int \<times> slot_ctx" where
  "meta_slot provisionalMeta slot_into H =
     (case provisionalMeta of
        None \<Rightarrow> (PREREQUISITE_NOT_MET, H)
      | Some meta \<Rightarrow>
          if slot_into > max_slots then (INVALID_ARGUMENT, H)
          else if slot_into = 0 \<and> no_free_slots H then (NO_FREE_SLOTS, H)
          else into_slot slot_into (in_slot meta) H)"

text \<open>\<open>inner\<close> is the transaction with its metadata inside of an import, where it can be read.\<close>

definition xpop_slot :: "bool \<Rightarrow> (stbase \<times> stbase) option \<Rightarrow> int \<Rightarrow> int \<Rightarrow> slot_ctx \<Rightarrow> int \<times> slot_ctx" where
  "xpop_slot is_import inner slot_into_tx slot_into_meta H =
     (if \<not> is_import then (PREREQUISITE_NOT_MET, H)
      else if slot_into_tx > max_slots \<or> slot_into_meta > max_slots then (INVALID_ARGUMENT, H)
      else
        let free_count = u64 (max_slots - int (length (slots_of H)));
            needed_count = (if slot_into_tx = 0 \<and> slot_into_meta = 0 then 2
                            else if slot_into_tx \<noteq> 0 \<and> slot_into_meta \<noteq> 0 then 0 else 1)
        in if free_count < needed_count then (NO_FREE_SLOTS, H)
           else if needed_count = 0 \<and> slot_into_tx = slot_into_meta then (INVALID_ARGUMENT, H)
           else if slot_into_tx = 0 \<and> no_free_slots H then (NO_FREE_SLOTS, H)
           else
             (case take_slot slot_into_tx H of
                (None, H) \<Rightarrow> (NO_FREE_SLOTS, H)
              | (Some n, H) \<Rightarrow>
                  if slot_into_meta = 0 \<and> no_free_slots H then (NO_FREE_SLOTS, H)
                  else
                    (case take_slot slot_into_meta H of
                       (None, H) \<Rightarrow> (NO_FREE_SLOTS, H)
                     | (Some k, H) \<Rightarrow>
                         (case inner of
                            None \<Rightarrow> (INVALID_TXN, H)
                          | Some (tx, meta) \<Rightarrow> (n * 2 ^ 16 + k, put_slot k (in_slot meta) (put_slot n (in_slot tx) H))))))"

text \<open>A keylet of 34 bytes names an entry of the ledger, 32 bytes the hash of a transaction.\<close>

definition slot_set ::
    "(Keylet \<Rightarrow> stbase option) \<Rightarrow> (blob \<Rightarrow> stbase option) \<Rightarrow> blob \<Rightarrow> int \<Rightarrow> int \<Rightarrow> int \<Rightarrow> slot_ctx \<Rightarrow> int \<times> slot_ctx" where
  "slot_set view_read fetch mem read_ptr read_len slot_into H =
     (if NOT_IN_BOUNDS read_ptr read_len mem then (OUT_OF_BOUNDS, H)
      else if read_len \<noteq> 32 \<and> read_len \<noteq> 34 \<or> slot_into > max_slots then (INVALID_ARGUMENT, H)
      else if slot_into = 0 \<and> no_free_slots H then (NO_FREE_SLOTS, H)
      else
        let bs = mem_read mem read_ptr read_len;
            slot_value =
              (if read_len = 34 then
                 case unserialize_keylet bs of
                   None \<Rightarrow> None
                 | Some kl \<Rightarrow> if list_all (\<lambda>b. b = 0) (kl_key kl) then None else view_read kl
               else fetch bs)
        in case slot_value of None \<Rightarrow> (DOESNT_EXIST, H) | Some st \<Rightarrow> into_slot slot_into (in_slot st) H)"

definition slot_clear :: "int \<Rightarrow> slot_ctx \<Rightarrow> int \<times> slot_ctx" where
  "slot_clear slot_no H =
     (if map_of (slots_of H) slot_no = None then (DOESNT_EXIST, H)
      else (1, H\<lparr>slots_of := filter (\<lambda>(k, e). k \<noteq> slot_no) (slots_of H), slot_free := slot_free H @ [slot_no]\<rparr>))"

subsection \<open>Reading slots\<close>

definition slot_api :: "set_data \<Rightarrow> (stbase \<Rightarrow> blob) \<Rightarrow> slot_ctx \<Rightarrow> blob \<Rightarrow> int \<Rightarrow> int \<Rightarrow> int \<Rightarrow> int \<times> blob" where
  "slot_api sd ser H mem write_ptr write_len slot_no =
     (if write_ptr = 0 \<and> write_len \<noteq> 0 then (INVALID_ARGUMENT, mem)
      else if write_ptr \<noteq> 0 \<and> NOT_IN_BOUNDS write_ptr write_len mem then (OUT_OF_BOUNDS, mem)
      else if write_ptr \<noteq> 0 \<and> write_len < 1 then (TOO_SMALL, mem)
      else case map_of (slots_of H) slot_no of
             None \<Rightarrow> (DOESNT_EXIST, mem)
           | Some e \<Rightarrow>
               (case entry e of
                  None \<Rightarrow> (INTERNAL_ERROR, mem)
                | Some st \<Rightarrow>
                    WRITE_WASM_MEMORY_OR_RETURN_AS_INT64 sd write_ptr write_len (ser st) (getSType st = STI_ACCOUNT) mem))"

text \<open>The functions that look at the part a slot points to.\<close>

definition with_slot :: "slot_ctx \<Rightarrow> int \<Rightarrow> (stbase \<Rightarrow> int) \<Rightarrow> int" where
  "with_slot H slot_no f =
     (case map_of (slots_of H) slot_no of
        None \<Rightarrow> DOESNT_EXIST
      | Some e \<Rightarrow> (case entry e of None \<Rightarrow> INTERNAL_ERROR | Some st \<Rightarrow> f st))"

definition slot_count :: "slot_ctx \<Rightarrow> int \<Rightarrow> int" where
  "slot_count H slot_no = with_slot H slot_no (\<lambda>st. case st of St_array f xs \<Rightarrow> int (length xs) | _ \<Rightarrow> NOT_AN_ARRAY)"

definition slot_size :: "(stbase \<Rightarrow> blob) \<Rightarrow> slot_ctx \<Rightarrow> int \<Rightarrow> int" where
  "slot_size ser H slot_no = with_slot H slot_no (\<lambda>st. int (length (ser st)))"

definition slot_type :: "slot_ctx \<Rightarrow> int \<Rightarrow> int \<Rightarrow> int" where
  "slot_type H slot_no flags =
     with_slot H slot_no (\<lambda>st.
       if flags = 0 then fname st
       else if flags = 1 then
         (case st of St_amount f a bs \<Rightarrow> (case a of Native d \<Rightarrow> 1 | Issued i \<Rightarrow> 0) | _ \<Rightarrow> NOT_AN_AMOUNT)
       else INVALID_ARGUMENT)"

definition slot_float :: "(int \<Rightarrow> int) \<Rightarrow> slot_ctx \<Rightarrow> int \<Rightarrow> int" where
  "slot_float lg H slot_no =
     with_slot H slot_no (\<lambda>st.
       case st of
         St_amount f a bs \<Rightarrow>
           let normalized = (case a of Native drops \<Rightarrow> fst (normalize_xfl lg True drops (- 6) False) | Issued amt \<Rightarrow> make_float_iou amt)
           in if normalized = EXPONENT_UNDERSIZED then 0 else normalized
       | _ \<Rightarrow> NOT_AN_AMOUNT)"

subsection \<open>Parts into slots\<close>

text \<open>The new slot gets the storage of the parent, and the part as its entry.\<close>

definition sub_slot :: "slot_entry \<Rightarrow> stbase \<Rightarrow> int \<Rightarrow> slot_ctx \<Rightarrow> int \<times> slot_ctx" where
  "sub_slot parent st new_slot H = into_slot new_slot (parent\<lparr>entry := Some st\<rparr>) H"

definition slot_subarray :: "int \<Rightarrow> int \<Rightarrow> int \<Rightarrow> slot_ctx \<Rightarrow> int \<times> slot_ctx" where
  "slot_subarray parent_slot array_id new_slot H =
     (case map_of (slots_of H) parent_slot of
        None \<Rightarrow> (DOESNT_EXIST, H)
      | Some parent \<Rightarrow>
          (case entry parent of
             None \<Rightarrow> (INTERNAL_ERROR, H)
           | Some (St_array f xs) \<Rightarrow>
               if new_slot = 0 \<and> no_free_slots H then (NO_FREE_SLOTS, H)
               else if new_slot > max_slots then (INVALID_ARGUMENT, H)
               else if int (length xs) \<le> array_id then (DOESNT_EXIST, H)
               else sub_slot parent (xs ! nat array_id) new_slot H
           | _ \<Rightarrow> (NOT_AN_ARRAY, H)))"

definition slot_subfield :: "(int \<Rightarrow> bool) \<Rightarrow> int \<Rightarrow> int \<Rightarrow> int \<Rightarrow> slot_ctx \<Rightarrow> int \<times> slot_ctx" where
  "slot_subfield known parent_slot field_id new_slot H =
     (case map_of (slots_of H) parent_slot of
        None \<Rightarrow> (DOESNT_EXIST, H)
      | Some parent \<Rightarrow>
          if new_slot = 0 \<and> no_free_slots H then (NO_FREE_SLOTS, H)
          else if new_slot > max_slots then (INVALID_ARGUMENT, H)
          else if \<not> known field_id then (INVALID_FIELD, H)
          else
            (case entry parent of
               None \<Rightarrow> (INTERNAL_ERROR, H)
             | Some (St_object f t fs) \<Rightarrow>
                 (case map_of fs field_id of
                    None \<Rightarrow> (DOESNT_EXIST, H)
                  | Some st \<Rightarrow> sub_slot parent st new_slot H)
             | _ \<Rightarrow> (NOT_AN_OBJECT, H)))"

end
