(* ===== verification/Hook_Slot_Alloc.thy ===== *)
theory Hook_Slot_Alloc
  imports Hook_Slot
begin

text \<open>
  The allocation of slots: as long as a slot is free a hook gets one, and every function changes only the slots it
  names or gives out.
\<close>

subsection \<open>The invariant\<close>














lemma in_slot_entry [simp]: "entry (in_slot st) = Some st"
  by (simp add: in_slot_def)









subsection \<open>Executions\<close>



text \<open>A slot that was cleared and filled again by its number is given out although it is in use.\<close>

lemma slot_given_out_twice:
  "let H1 = snd (otxn_slot None a 5 no_slots); H2 = snd (slot_clear 5 H1); H3 = snd (otxn_slot None b 5 H2)
   in otxn_slot None d 0 H3 = (5, H3\<lparr>slots_of := [(5, in_slot d)], slot_free := []\<rparr>)"
  by (simp add: otxn_slot_def into_slot_def take_slot_def put_slot_def slot_clear_def no_slots_def no_free_slots_def
      get_free_slot_def max_slots_def u64_def)

text \<open>A failing \<open>xpop_slot\<close> loses two slots: the counter has passed them, and they are not in the queue.\<close>

lemma xpop_slot_leaks: "xpop_slot True None 0 0 no_slots = (INVALID_TXN, no_slots\<lparr>slot_counter := 2\<rparr>)"
  by (simp add: xpop_slot_def take_slot_def get_free_slot_def no_slots_def no_free_slots_def count_slot.simps max_slots_def
      u64_def u32_def s32_def)

subsection \<open>Properties\<close>



end
