(* ===== verification/Hook_Tsh.thy ===== *)
theory Hook_Tsh
  imports Hook_Memory Ordered_Map
begin

text \<open>
  The transactional stakeholders of a transaction, the accounts other than the originator whose hooks run:
  \<open>getTransactionalStakeHolders\<close> of \<^verbatim>\<open>src/src/ripple/app/hook/impl/applyHook.cpp\<close>. A strong stakeholder can roll
  the transaction back, a weak one is only told. The ledger is a record of the lookups the function makes.
\<close>

subsection \<open>Transactions and ledger objects\<close>

abbreviation (input) ttPAYMENT :: int where "ttPAYMENT \<equiv> 0"
abbreviation (input) ttESCROW_CREATE :: int where "ttESCROW_CREATE \<equiv> 1"
abbreviation (input) ttESCROW_FINISH :: int where "ttESCROW_FINISH \<equiv> 2"
abbreviation (input) ttACCOUNT_SET :: int where "ttACCOUNT_SET \<equiv> 3"
abbreviation (input) ttESCROW_CANCEL :: int where "ttESCROW_CANCEL \<equiv> 4"
abbreviation (input) ttREGULAR_KEY_SET :: int where "ttREGULAR_KEY_SET \<equiv> 5"
abbreviation (input) ttOFFER_CREATE :: int where "ttOFFER_CREATE \<equiv> 7"
abbreviation (input) ttOFFER_CANCEL :: int where "ttOFFER_CANCEL \<equiv> 8"
abbreviation (input) ttTICKET_CREATE :: int where "ttTICKET_CREATE \<equiv> 10"
abbreviation (input) ttSIGNER_LIST_SET :: int where "ttSIGNER_LIST_SET \<equiv> 12"
abbreviation (input) ttPAYCHAN_CREATE :: int where "ttPAYCHAN_CREATE \<equiv> 13"
abbreviation (input) ttPAYCHAN_FUND :: int where "ttPAYCHAN_FUND \<equiv> 14"
abbreviation (input) ttPAYCHAN_CLAIM :: int where "ttPAYCHAN_CLAIM \<equiv> 15"
abbreviation (input) ttCHECK_CREATE :: int where "ttCHECK_CREATE \<equiv> 16"
abbreviation (input) ttCHECK_CASH :: int where "ttCHECK_CASH \<equiv> 17"
abbreviation (input) ttCHECK_CANCEL :: int where "ttCHECK_CANCEL \<equiv> 18"
abbreviation (input) ttDEPOSIT_PREAUTH :: int where "ttDEPOSIT_PREAUTH \<equiv> 19"
abbreviation (input) ttTRUST_SET :: int where "ttTRUST_SET \<equiv> 20"
abbreviation (input) ttACCOUNT_DELETE :: int where "ttACCOUNT_DELETE \<equiv> 21"
abbreviation (input) ttHOOK_SET' :: int where "ttHOOK_SET' \<equiv> 22"
abbreviation (input) ttNFTOKEN_MINT :: int where "ttNFTOKEN_MINT \<equiv> 25"
abbreviation (input) ttNFTOKEN_BURN :: int where "ttNFTOKEN_BURN \<equiv> 26"
abbreviation (input) ttNFTOKEN_CREATE_OFFER :: int where "ttNFTOKEN_CREATE_OFFER \<equiv> 27"
abbreviation (input) ttNFTOKEN_CANCEL_OFFER :: int where "ttNFTOKEN_CANCEL_OFFER \<equiv> 28"
abbreviation (input) ttNFTOKEN_ACCEPT_OFFER :: int where "ttNFTOKEN_ACCEPT_OFFER \<equiv> 29"
abbreviation (input) ttURITOKEN_MINT :: int where "ttURITOKEN_MINT \<equiv> 45"
abbreviation (input) ttURITOKEN_BURN :: int where "ttURITOKEN_BURN \<equiv> 46"
abbreviation (input) ttURITOKEN_BUY :: int where "ttURITOKEN_BUY \<equiv> 47"
abbreviation (input) ttURITOKEN_CREATE_SELL_OFFER :: int where "ttURITOKEN_CREATE_SELL_OFFER \<equiv> 48"
abbreviation (input) ttURITOKEN_CANCEL_SELL_OFFER :: int where "ttURITOKEN_CANCEL_SELL_OFFER \<equiv> 49"
abbreviation (input) ttREMIT :: int where "ttREMIT \<equiv> 95"
abbreviation (input) ttGENESIS_MINT :: int where "ttGENESIS_MINT \<equiv> 96"
abbreviation (input) ttIMPORT :: int where "ttIMPORT \<equiv> 97"
abbreviation (input) ttCLAIM_REWARD :: int where "ttCLAIM_REWARD \<equiv> 98"
abbreviation (input) ttINVOKE :: int where "ttINVOKE \<equiv> 99"

text \<open>The fields the function reads; \<open>None\<close> is a field that is not present.\<close>

record tsh_tx =
  sfTransactionType :: int
  sfAccount :: "blob option"
  sfDestination :: "blob option"
  sfInform :: "blob option"
  sfURITokenIDs :: "blob list option"
  sfURITokenID :: blob
  sfIssuer :: "blob option"
  sfOwner :: "blob option"
  sfNFTokenID :: "blob option"
  sfNFTokenBuyOffer :: "blob option"
  sfNFTokenSellOffer :: "blob option"
  sfNFTokenOffers :: "blob list option"
  sfRegularKey :: "blob option"
  sfAuthorize :: "blob option"
  sfLimitIssuer :: "blob option"
  sfOfferSequence :: "int option"
  sfEscrowID :: "blob option"
  sfChannel :: "blob option"
  sfCheckID :: "blob option"
  sfSignerEntries :: "blob option list"
  sfGenesisMints :: "blob option list option"

record uri_token =
  ut_owner :: blob
  ut_issuer :: blob
  ut_destination :: "blob option"
  ut_burnable :: bool

record nft_offer =
  of_owner :: blob
  of_destination :: "blob option"
  of_token :: blob

record two_party =
  tp_account :: blob
  tp_destination :: blob

record tsh_view =
  featureHooks :: bool
  fixXahauV1 :: bool
  fixXahauV2 :: bool
  read_account :: "blob \<Rightarrow> bool"
  read_uritoken :: "blob \<Rightarrow> uri_token option"
  read_nftoffer :: "blob \<Rightarrow> nft_offer option"
  findToken :: "blob \<Rightarrow> blob \<Rightarrow> bool"
  read_escrow_seq :: "blob \<Rightarrow> int \<Rightarrow> two_party option"
  read_escrow :: "blob \<Rightarrow> two_party option"
  read_paychan :: "blob \<Rightarrow> two_party option"
  read_check :: "blob \<Rightarrow> two_party option"

text \<open>An identifier of a token has its flags in the first two bytes and its issuer from the fifth on.\<close>

definition getIssuer :: "blob \<Rightarrow> blob" where
  "getIssuer nid = take 20 (drop 4 nid)"

definition strongTSH :: "blob \<Rightarrow> bool" where
  "strongTSH nid \<longleftrightarrow> uint (nid ! 0) \<ge> 128"

definition getNFTOffer :: "tsh_view \<Rightarrow> blob option \<Rightarrow> nft_offer option" where
  "getNFTOffer rv i =
     (case i of None \<Rightarrow> None | Some i \<Rightarrow> if list_all (\<lambda>b. b = 0) i then None else read_nftoffer rv i)"

subsection \<open>The stakeholders by transaction type\<close>

text \<open>
  The calls of \<open>ADD_TSH\<close> in their order; \<open>None\<close> is a return without stakeholders. Nothing in the switch depends on the
  calls before.
\<close>

type_synonym adds = "(blob \<times> bool) list"

abbreviation (input) "tshSTRONG \<equiv> True"
abbreviation (input) "tshWEAK \<equiv> False"

definition opt_add :: "blob option \<Rightarrow> bool \<Rightarrow> adds" where
  "opt_add a rb = (case a of None \<Rightarrow> [] | Some a \<Rightarrow> [(a, rb)])"

fun remit_tokens :: "tsh_view \<Rightarrow> blob option \<Rightarrow> blob list \<Rightarrow> fault + adds" where
  "remit_tokens rv dest [] = Inr []"
| "remit_tokens rv dest (i # ids) =
     (case read_uritoken rv i of
        None \<Rightarrow> remit_tokens rv dest ids
      | Some ut \<Rightarrow>
          if ut_issuer ut = ut_owner ut then remit_tokens rv dest ids
          else case dest of
                 None \<Rightarrow> Inl Undefined
               | Some d \<Rightarrow>
                   rbind (remit_tokens rv dest ids) (\<lambda>adds.
                   Inr ((if ut_issuer ut \<noteq> d then [(ut_issuer ut, ut_burnable ut)] else []) @ adds)))"

definition tsh_remit :: "tsh_view \<Rightarrow> tsh_tx \<Rightarrow> blob \<Rightarrow> fault + adds" where
  "tsh_remit rv tx otxn =
     (let dest = sfDestination tx in
      rbind
        (case sfInform tx of
           None \<Rightarrow> Inr []
         | Some inform \<Rightarrow>
             if otxn = inform then Inr []
             else case dest of None \<Rightarrow> Inl Undefined | Some d \<Rightarrow> Inr (if d \<noteq> inform then [(inform, tshWEAK)] else [])) (\<lambda>informs.
      rbind (case sfURITokenIDs tx of None \<Rightarrow> Inr [] | Some ids \<Rightarrow> remit_tokens rv dest ids) (\<lambda>issuers.
      Inr (opt_add dest tshSTRONG @ informs @ issuers))))"

definition tsh_uritoken :: "tsh_view \<Rightarrow> tsh_tx \<Rightarrow> blob \<Rightarrow> adds option" where
  "tsh_uritoken rv tx otxn =
     (let tt = sfTransactionType tx; fixV1 = fixXahauV1 rv; fixV2 = fixXahauV2 rv in
      if tt = ttURITOKEN_MINT then Some (if fixV2 then opt_add (sfDestination tx) tshSTRONG else [])
      else if tt = ttURITOKEN_CANCEL_SELL_OFFER \<and> \<not> fixV2 then Some []
      else
        case read_uritoken rv (sfURITokenID tx) of
          None \<Rightarrow> None
        | Some ut \<Rightarrow>
            let owner = ut_owner ut; issuer = ut_issuer ut in
            if tt = ttURITOKEN_BURN then
              if issuer = owner then Some []
              else if fixV1 then
                Some (if otxn = owner \<and> read_account rv issuer then [(issuer, tshWEAK)]
                      else if read_account rv owner then [(owner, tshWEAK)] else [])
              else Some (if otxn = owner then [(issuer, tshSTRONG)] else [(owner, tshSTRONG)])
            else if tt = ttURITOKEN_BUY then
              Some ((if owner \<noteq> otxn then [(owner, tshSTRONG)] else []) @
                    (if issuer \<noteq> owner then [(issuer, ut_burnable ut)] else []))
            else if tt = ttURITOKEN_CANCEL_SELL_OFFER then Some (opt_add (ut_destination ut) tshWEAK)
            else
              Some ((if issuer \<noteq> owner then [(issuer, ut_burnable ut)] else []) @ opt_add (sfDestination tx) tshSTRONG))"

definition offer_adds :: "nft_offer option \<Rightarrow> bool \<Rightarrow> adds" where
  "offer_adds ofr rb = (case ofr of None \<Rightarrow> [] | Some ofr \<Rightarrow> (of_owner ofr, rb) # opt_add (of_destination ofr) rb)"

definition tsh_nft :: "tsh_view \<Rightarrow> tsh_tx \<Rightarrow> blob \<Rightarrow> adds option" where
  "tsh_nft rv tx otxn =
     (let tt = sfTransactionType tx in
      if tt = ttNFTOKEN_BURN \<or> tt = ttNFTOKEN_CREATE_OFFER then
        case sfNFTokenID tx of
          None \<Rightarrow> None
        | Some nid \<Rightarrow>
            let owner = (case sfOwner tx of Some a \<Rightarrow> a | None \<Rightarrow> otxn) in
            if \<not> findToken rv owner nid then None
            else Some ((getIssuer nid, strongTSH nid) # opt_add (sfOwner tx) tshWEAK)
      else if tt = ttNFTOKEN_ACCEPT_OFFER then
        let bo = getNFTOffer rv (sfNFTokenBuyOffer tx); so = getNFTOffer rv (sfNFTokenSellOffer tx) in
        case (case bo of Some x \<Rightarrow> Some x | None \<Rightarrow> so) of
          None \<Rightarrow> None
        | Some x \<Rightarrow>
            Some ((getIssuer (of_token x), strongTSH (of_token x)) # offer_adds bo tshSTRONG @ offer_adds so tshSTRONG)
      else
        case sfNFTokenOffers tx of
          None \<Rightarrow> None
        | Some ids \<Rightarrow>
            Some (concat (map (\<lambda>i. case getNFTOffer rv (Some i) of None \<Rightarrow> []
                                  | Some x \<Rightarrow> offer_adds (Some x) tshWEAK @ [(getIssuer (of_token x), tshWEAK)]) ids)))"

definition tsh_escrow :: "tsh_view \<Rightarrow> tsh_tx \<Rightarrow> adds option" where
  "tsh_escrow rv tx =
     (let fin = (sfTransactionType tx = ttESCROW_FINISH) in
      case sfOwner tx of
        None \<Rightarrow> None
      | Some owner \<Rightarrow>
          if fixXahauV1 rv then
            case (case sfOfferSequence tx of
                    Some s \<Rightarrow> read_escrow_seq rv owner s
                  | None \<Rightarrow> (case sfEscrowID tx of None \<Rightarrow> None | Some i \<Rightarrow> read_escrow rv i)) of
              None \<Rightarrow> None
            | Some e \<Rightarrow>
                Some ((tp_account e, tshSTRONG) #
                      (if tp_account e \<noteq> tp_destination e then [(tp_destination e, fin)] else []))
          else
            case sfOfferSequence tx of
              None \<Rightarrow> None
            | Some s \<Rightarrow>
                (case read_escrow_seq rv owner s of
                   None \<Rightarrow> None
                 | Some e \<Rightarrow> Some [(tp_account e, tshSTRONG), (tp_destination e, fin)]))"

definition both_parties :: "two_party option \<Rightarrow> adds option" where
  "both_parties e = map_option (\<lambda>e. [(tp_account e, tshSTRONG), (tp_destination e, tshWEAK)]) e"

definition tsh_adds :: "tsh_view \<Rightarrow> tsh_tx \<Rightarrow> blob \<Rightarrow> fault + adds option" where
  "tsh_adds rv tx otxn =
     (let tt = sfTransactionType tx in
      if tt = ttREMIT then rbind (tsh_remit rv tx otxn) (\<lambda>adds. Inr (Some adds))
      else if tt = ttIMPORT then Inr (Some (opt_add (sfIssuer tx) (\<not> fixXahauV2 rv)))
      else if tt \<in> {ttURITOKEN_BURN, ttURITOKEN_BUY, ttURITOKEN_MINT, ttURITOKEN_CANCEL_SELL_OFFER, ttURITOKEN_CREATE_SELL_OFFER} then
        Inr (tsh_uritoken rv tx otxn)
      else if tt \<in> {ttNFTOKEN_MINT, ttCLAIM_REWARD} then Inr (Some (opt_add (sfIssuer tx) tshSTRONG))
      else if tt \<in> {ttNFTOKEN_BURN, ttNFTOKEN_CREATE_OFFER, ttNFTOKEN_ACCEPT_OFFER, ttNFTOKEN_CANCEL_OFFER} then
        Inr (tsh_nft rv tx otxn)
      else if tt \<in> {ttACCOUNT_SET, ttOFFER_CANCEL, ttTICKET_CREATE, ttHOOK_SET', ttOFFER_CREATE} then Inr (Some [])
      else if tt = ttREGULAR_KEY_SET then Inr (map_option (\<lambda>a. [(a, tshSTRONG)]) (sfRegularKey tx))
      else if tt = ttDEPOSIT_PREAUTH then Inr (map_option (\<lambda>a. [(a, tshSTRONG)]) (sfAuthorize tx))
      else if tt \<in> {ttPAYMENT, ttESCROW_CREATE, ttCHECK_CREATE, ttACCOUNT_DELETE, ttPAYCHAN_CREATE, ttINVOKE} then
        Inr (Some (opt_add (sfDestination tx) tshSTRONG))
      else if tt = ttTRUST_SET then Inr (map_option (\<lambda>a. [(a, tshWEAK)]) (sfLimitIssuer tx))
      else if tt \<in> {ttESCROW_CANCEL, ttESCROW_FINISH} then Inr (tsh_escrow rv tx)
      else if tt \<in> {ttPAYCHAN_FUND, ttPAYCHAN_CLAIM} then
        Inr (case sfChannel tx of None \<Rightarrow> None | Some i \<Rightarrow> both_parties (read_paychan rv i))
      else if tt \<in> {ttCHECK_CASH, ttCHECK_CANCEL} then
        Inr (case sfCheckID tx of None \<Rightarrow> None | Some i \<Rightarrow> both_parties (read_check rv i))
      else if tt = ttSIGNER_LIST_SET then Inr (Some (concat (map (\<lambda>a. opt_add a tshSTRONG) (sfSignerEntries tx))))
      else if tt = ttGENESIS_MINT then
        Inr (Some (case sfGenesisMints tx of None \<Rightarrow> [] | Some mints \<Rightarrow> concat (map (\<lambda>a. opt_add a tshWEAK) mints)))
      else Inr None)"

subsection \<open>Collecting them\<close>

text \<open>The map from accounts to position and strength, and the number of its entries.\<close>

type_synonym tsh_entries = "(blob \<times> int \<times> bool) list"

definition ADD_TSH :: "blob \<Rightarrow> blob \<times> bool \<Rightarrow> tsh_entries \<times> int \<Rightarrow> tsh_entries \<times> int" where
  "ADD_TSH otxn add st =
     (let (acc_r, rb) = add; (entries, upto) = st in
      if acc_r = otxn then (entries, upto)
      else case map_of entries acc_r of
             Some (i, s) \<Rightarrow> (map_put acc_r (i, s \<or> rb) entries, upto)
           | None \<Rightarrow> (map_put acc_r (upto, rb) entries, upto + 1))"

text \<open>The vector at the end: as many elements as entries, each stored at its position.\<close>

definition tsh_vector :: "tsh_entries \<Rightarrow> adds" where
  "tsh_vector entries =
     fold (\<lambda>(a, i, s) ret. ret[nat i := (a, s)]) entries (replicate (length entries) (replicate 20 0, False))"

definition getTransactionalStakeHolders :: "tsh_view \<Rightarrow> tsh_tx \<Rightarrow> fault + adds" where
  "getTransactionalStakeHolders rv tx =
     (if \<not> featureHooks rv then Inr []
      else case sfAccount tx of
             None \<Rightarrow> Inr []
           | Some otxn \<Rightarrow>
               rbind (tsh_adds rv tx otxn) (\<lambda>adds.
               Inr (case adds of None \<Rightarrow> [] | Some adds \<Rightarrow> tsh_vector (fst (fold (ADD_TSH otxn) adds ([], 0))))))"

subsection \<open>Properties\<close>

text \<open>What is to be collected: every account but the originator once, in the order of the first call, strong if a call says so.\<close>

definition first_calls :: "blob \<Rightarrow> adds \<Rightarrow> blob list" where
  "first_calls otxn adds = rev (remdups (rev (filter (\<lambda>a. a \<noteq> otxn) (map fst adds))))"

definition tsh_spec :: "blob \<Rightarrow> adds \<Rightarrow> adds" where
  "tsh_spec otxn adds = map (\<lambda>a. (a, (a, tshSTRONG) \<in> set adds)) (first_calls otxn adds)"

lemma first_calls_snoc:
  "first_calls otxn (adds @ [(a, rb)]) =
     (if a = otxn \<or> a \<in> set (first_calls otxn adds) then first_calls otxn adds else first_calls otxn adds @ [a])"
  by (auto simp: first_calls_def)

lemma first_calls_facts: "distinct (first_calls otxn adds)" "set (first_calls otxn adds) = fst ` set adds - {otxn}"
  by (auto simp: first_calls_def)

definition collects :: "tsh_entries \<times> int \<Rightarrow> blob list \<Rightarrow> (blob \<Rightarrow> bool) \<Rightarrow> bool" where
  "collects st as strong \<longleftrightarrow> keys_ok (fst st) \<and> snd st = int (length as) \<and> distinct as \<and>
     dom (map_of (fst st)) = set as \<and> (\<forall>j < length as. map_of (fst st) (as ! j) = Some (int j, strong (as ! j)))"

lemma collects_ADD:
  assumes c: "collects st as strong"
  shows "collects (ADD_TSH otxn (a, rb) st) (if a = otxn \<or> a \<in> set as then as else as @ [a])
    (if a = otxn then strong else strong(a := a \<in> set as \<and> strong a \<or> rb))"
proof -
  obtain entries upto' where st: "st = (entries, upto')" by (cases st)
  consider "a = otxn" | "a \<noteq> otxn" "a \<in> set as" | "a \<noteq> otxn" "a \<notin> set as" by blast
  then show ?thesis
  proof cases
    case 1
    then show ?thesis using c by (simp add: ADD_TSH_def st)
  next
    case 2
    then obtain j where j: "j < length as" "as ! j = a" by (auto simp: in_set_conv_nth)
    then have m: "map_of entries a = Some (int j, strong a)" using c by (auto simp: collects_def st)
    have "as ! k = a \<longleftrightarrow> k = j" if "k < length as" for k
      using c j that nth_eq_iff_index_eq [of as k j] by (auto simp: collects_def)
    then show ?thesis using c 2 j m by (auto simp: collects_def ADD_TSH_def st keys_ok_map_put)
  next
    case 3
    then have "map_of entries a = None" using c by (auto simp: collects_def st)
    then show ?thesis using c 3 by (auto simp: collects_def ADD_TSH_def st keys_ok_map_put nth_append less_Suc_eq)
  qed
qed

lemma collects_fold: "collects (fold (ADD_TSH otxn) adds ([], 0)) (first_calls otxn adds) (\<lambda>a. (a, tshSTRONG) \<in> set adds)"
proof (induction adds rule: rev_induct)
  case Nil
  then show ?case by (simp add: collects_def first_calls_def)
next
  case (snoc x adds)
  obtain a rb where x: "x = (a, rb)" by (cases x)
  note c = collects_ADD [OF snoc.IH, of otxn a rb]
  have agree: "collects st as s \<Longrightarrow> (\<And>b. b \<in> set as \<Longrightarrow> s b = s' b) \<Longrightarrow> collects st as s'" for st as s s'
    by (auto simp: collects_def)
  show ?case unfolding x first_calls_snoc fold_append comp_def fold_simps
  proof (rule agree [OF c])
    fix b assume "b \<in> set (if a = otxn \<or> a \<in> set (first_calls otxn adds) then first_calls otxn adds else first_calls otxn adds @ [a])"
    then have b: "b \<noteq> otxn" by (auto simp: first_calls_facts split: if_splits)
    show "(if a = otxn then \<lambda>a. (a, tshSTRONG) \<in> set adds
       else (\<lambda>a. (a, tshSTRONG) \<in> set adds)(a := a \<in> set (first_calls otxn adds) \<and> (a, tshSTRONG) \<in> set adds \<or> rb)) b =
      ((b, tshSTRONG) \<in> set (adds @ [(a, rb)]))"
      using b by (auto simp: first_calls_facts image_iff) force
  qed
qed

lemma vector_other: "\<forall>(a, i, s) \<in> set es. nat i \<noteq> j \<Longrightarrow> fold (\<lambda>(a, i, s) ret. ret[nat i := (a, s)]) es ret ! j = ret ! j"
  by (induction es arbitrary: ret) auto

lemma vector_length: "length (fold (\<lambda>(a, i, s) ret. ret[nat i := (a, s)]) es ret) = length ret"
  by (induction es arbitrary: ret) auto

lemma vector_nth:
  assumes "(a, i, s) \<in> set es" "distinct (map (\<lambda>(a, i, s). nat i) es)" "nat i < length ret"
  shows "fold (\<lambda>(a, i, s) ret. ret[nat i := (a, s)]) es ret ! nat i = (a, s)"
  using assms
proof (induction es arbitrary: ret)
  case (Cons e es)
  show ?case
  proof (cases "e = (a, i, s)")
    case True
    then have "\<forall>(b, k, t) \<in> set es. nat k \<noteq> nat i" using Cons.prems(2) by force
    then show ?thesis using True Cons.prems(3) by (simp add: vector_other)
  next
    case False
    then show ?thesis using Cons by (auto split: prod.splits)
  qed
qed simp

lemma collects_vector:
  assumes c: "collects st as strong"
  shows "tsh_vector (fst st) = map (\<lambda>a. (a, strong a)) as"
proof -
  let ?es = "fst st"
  have k: "distinct (map fst ?es)" using c keys_ok_distinct by (auto simp: collects_def)
  have mem: "(a, i, s) \<in> set ?es \<longleftrightarrow> (\<exists>j < length as. a = as ! j \<and> i = int j \<and> s = strong a)" for a i s
  proof -
    have "(a, i, s) \<in> set ?es \<longleftrightarrow> map_of ?es a = Some (i, s)" using k by simp
    also have "\<dots> \<longleftrightarrow> (\<exists>j < length as. a = as ! j \<and> i = int j \<and> s = strong a)"
    proof
      assume m: "map_of ?es a = Some (i, s)"
      then have "a \<in> set as" using c by (auto simp: collects_def)
      then obtain j where "j < length as" "as ! j = a" by (auto simp: in_set_conv_nth)
      then show "\<exists>j < length as. a = as ! j \<and> i = int j \<and> s = strong a" using c m by (auto simp: collects_def)
    qed (use c in \<open>auto simp: collects_def\<close>)
    finally show ?thesis .
  qed
  have len: "length ?es = length as"
  proof -
    have "length ?es = card (dom (map_of ?es))" using distinct_card [OF k] by (simp add: dom_map_of_conv_image_fst)
    also have "\<dots> = length as" using c by (simp add: collects_def distinct_card)
    finally show ?thesis .
  qed
  have "distinct (map (\<lambda>(a, i, s). nat i) ?es)"
  proof -
    have "inj_on (\<lambda>(a, i, s). nat i) (set ?es)" by (rule inj_onI) (auto simp: mem)
    then show ?thesis using k by (simp add: distinct_map)
  qed
  then have "tsh_vector ?es ! j = (as ! j, strong (as ! j))" if "j < length as" for j
    using vector_nth [of "as ! j" "int j" "strong (as ! j)" ?es "replicate (length ?es) (replicate 20 0, False)"] that mem len
    by (auto simp: tsh_vector_def)
  moreover have "length (tsh_vector ?es) = length as" by (simp add: tsh_vector_def vector_length len)
  ultimately show ?thesis by (intro nth_equalityI) auto
qed

lemma remit_tokens_total: "dest \<noteq> None \<Longrightarrow> \<exists>adds. remit_tokens rv dest ids = Inr adds"
  by (induction ids) (auto split: option.splits)

lemma tsh_remit_total:
  assumes "sfDestination tx = Some d"
  shows "\<exists>adds. tsh_remit rv tx otxn = Inr adds"
proof -
  have "\<exists>informs. (case sfInform tx of None \<Rightarrow> Inr [] | Some inform \<Rightarrow> if otxn = inform then Inr []
      else Inr (if d \<noteq> inform then [(inform, tshWEAK)] else [])) = (Inr informs :: fault + adds)"
    by (simp split: option.split)
  then obtain informs where i: "(case sfInform tx of None \<Rightarrow> Inr [] | Some inform \<Rightarrow> if otxn = inform then Inr []
      else Inr (if d \<noteq> inform then [(inform, tshWEAK)] else [])) = (Inr informs :: fault + adds)" by blast
  obtain issuers where u: "(case sfURITokenIDs tx of None \<Rightarrow> Inr [] | Some ids \<Rightarrow> remit_tokens rv (Some d) ids) = Inr issuers"
    using remit_tokens_total [of "Some d" rv] by (cases "sfURITokenIDs tx") auto
  show ?thesis unfolding tsh_remit_def Let_def assms option.case i u by simp
qed

lemma tsh_adds_total:
  assumes "sfTransactionType tx = ttREMIT \<Longrightarrow> sfDestination tx \<noteq> None"
  shows "\<exists>adds. tsh_adds rv tx otxn = Inr adds"
proof (cases "sfTransactionType tx = ttREMIT")
  case True
  then obtain d where "sfDestination tx = Some d" using assms by blast
  then show ?thesis using tsh_remit_total [of tx d rv otxn] True by (auto simp: tsh_adds_def)
next
  case False
  then have "\<not> isl (tsh_adds rv tx otxn)" by (simp add: tsh_adds_def Let_def if_distrib [of isl])
  then show ?thesis by (cases "tsh_adds rv tx otxn") auto
qed

text \<open>
  C13.
  The stakeholders of a transaction are exactly the accounts the switch names for its type, without the originator:
  each appears once, in the order in which it is first named, and is strong exactly when it is named as strong at least
  once. The function returns for every transaction whose type has the fields it requires.
\<close>

theorem tsh_collected:
  assumes "featureHooks rv" "sfAccount tx = Some otxn" "sfTransactionType tx = ttREMIT \<longrightarrow> sfDestination tx \<noteq> None"
  shows "\<exists>adds. tsh_adds rv tx otxn = Inr adds \<and>
    getTransactionalStakeHolders rv tx = Inr (case adds of None \<Rightarrow> [] | Some adds \<Rightarrow> tsh_spec otxn adds)"
proof -
  obtain adds where a: "tsh_adds rv tx otxn = Inr adds" using tsh_adds_total [of tx rv otxn] assms(3) by blast
  have "tsh_vector (fst (fold (ADD_TSH otxn) l ([], 0))) = tsh_spec otxn l" for l
    using collects_vector [OF collects_fold] by (simp add: tsh_spec_def)
  then show ?thesis using assms a by (simp add: getTransactionalStakeHolders_def split: option.split)
qed

definition no_tx :: "int \<Rightarrow> blob \<Rightarrow> tsh_tx" where
  "no_tx tt a = \<lparr>sfTransactionType = tt, sfAccount = Some a, sfDestination = None, sfInform = None, sfURITokenIDs = None,
     sfURITokenID = [], sfIssuer = None, sfOwner = None, sfNFTokenID = None, sfNFTokenBuyOffer = None, sfNFTokenSellOffer = None,
     sfNFTokenOffers = None, sfRegularKey = None, sfAuthorize = None, sfLimitIssuer = None, sfOfferSequence = None,
     sfEscrowID = None, sfChannel = None, sfCheckID = None, sfSignerEntries = [], sfGenesisMints = None\<rparr>"

definition no_view :: tsh_view where
  "no_view = \<lparr>featureHooks = True, fixXahauV1 = True, fixXahauV2 = True, read_account = (\<lambda>a. False), read_uritoken = (\<lambda>i. None),
     read_nftoffer = (\<lambda>i. None), findToken = (\<lambda>a i. False), read_escrow_seq = (\<lambda>a i. None), read_escrow = (\<lambda>i. None),
     read_paychan = (\<lambda>i. None), read_check = (\<lambda>i. None)\<rparr>"

theorem tsh_collected_witness:
  "getTransactionalStakeHolders no_view ((no_tx ttSIGNER_LIST_SET [1])\<lparr>sfSignerEntries := [Some [7], Some [1], None, Some [4], Some [7]]\<rparr>) =
     Inr [([7], True), ([4], True)]"
  using tsh_collected [of no_view "(no_tx ttSIGNER_LIST_SET [1])\<lparr>sfSignerEntries := [Some [7], Some [1], None, Some [4], Some [7]]\<rparr>" "[1]"]
  by (simp add: no_view_def no_tx_def tsh_adds_def opt_add_def tsh_spec_def first_calls_def)

end
