(* ===== verification/Hook_Param.thy ===== *)
theory Hook_Param
  imports Hook_Memory Ordered_Map
begin

text \<open>
  Parameters of hooks and control of the chain: \<open>gatherHookParameters\<close>, \<open>hook_param\<close>, \<open>hook_param_set\<close>, \<open>otxn_param\<close>,
  \<open>hook_skip\<close>, \<open>hook_again\<close> and \<open>hook_pos\<close> of \<^verbatim>\<open>src/src/ripple/app/hook/impl/applyHook.cpp\<close>.
\<close>

type_synonym params = "(blob \<times> blob) list"

record param_ctx =
  hookParamOverrides :: "(blob \<times> params) list"
  hookParams :: params
  overrideCount :: int
  hookSkips :: "blob list"
  isStrong :: bool
  executeAgainAsWeak :: bool
  hookChainPosition :: int

subsection \<open>The parameters of a hook\<close>

text \<open>The parameters of the definition, if it has the field, and of the installed hook. The flag says an error.\<close>

definition put_all :: "params \<Rightarrow> params \<Rightarrow> params" where
  "put_all new m = fold (\<lambda>(k, v). map_put k v) new m"

definition gatherHookParameters :: "params option \<Rightarrow> params option \<Rightarrow> params \<Rightarrow> bool \<times> params" where
  "gatherHookParameters hookDef hookObj parameters =
     (case hookDef of
        None \<Rightarrow> (True, parameters)
      | Some defaults \<Rightarrow>
          let parameters = put_all defaults parameters
          in (False, case hookObj of None \<Rightarrow> parameters | Some own \<Rightarrow> put_all own parameters))"

text \<open>The value that \<open>hook_param\<close> finds: an override for the hash of the hook, then a parameter of the hook.\<close>

definition hook_param_value :: "blob \<Rightarrow> param_ctx \<Rightarrow> blob \<Rightarrow> blob option" where
  "hook_param_value hash P name =
     (let own = map_of (hookParams P) name in
      case map_of (hookParamOverrides P) hash of
        None \<Rightarrow> own
      | Some params \<Rightarrow> (case map_of params name of Some v \<Rightarrow> Some v | None \<Rightarrow> own))"

definition hook_param ::
    "set_data \<Rightarrow> blob \<Rightarrow> param_ctx \<Rightarrow> blob \<Rightarrow> int \<Rightarrow> int \<Rightarrow> int \<Rightarrow> int \<Rightarrow> int \<times> blob" where
  "hook_param sd hash P mem write_ptr write_len read_ptr read_len =
     (if NOT_IN_BOUNDS read_ptr read_len mem then (OUT_OF_BOUNDS, mem)
      else if NOT_IN_BOUNDS write_ptr write_len mem then (OUT_OF_BOUNDS, mem)
      else if read_len < 1 then (TOO_SMALL, mem)
      else if read_len > 32 then (TOO_BIG, mem)
      else case hook_param_value hash P (mem_read mem read_ptr read_len) of
             None \<Rightarrow> (DOESNT_EXIST, mem)
           | Some v \<Rightarrow>
               if v = [] then (DOESNT_EXIST, mem)
               else WRITE_WASM_MEMORY_AND_RETURN sd write_ptr write_len v mem)"

definition hook_param_set ::
    "param_ctx \<Rightarrow> blob \<Rightarrow> int \<Rightarrow> int \<Rightarrow> int \<Rightarrow> int \<Rightarrow> int \<Rightarrow> int \<Rightarrow> int \<times> param_ctx" where
  "hook_param_set P mem read_ptr read_len kread_ptr kread_len hread_ptr hread_len =
     (if NOT_IN_BOUNDS read_ptr read_len mem \<or> NOT_IN_BOUNDS kread_ptr kread_len mem \<or>
         NOT_IN_BOUNDS hread_ptr hread_len mem then (OUT_OF_BOUNDS, P)
      else if kread_len < 1 then (TOO_SMALL, P)
      else if kread_len > maxHookParameterKeySize then (TOO_BIG, P)
      else if hread_len \<noteq> 32 then (INVALID_ARGUMENT, P)
      else if read_len > maxHookParameterValueSize then (TOO_BIG, P)
      else if overrideCount P \<ge> max_params then (TOO_MANY_PARAMS, P)
      else
        let name = mem_read mem kread_ptr kread_len;
            v = mem_read mem read_ptr read_len;
            hash = mem_read mem hread_ptr 32;
            old = (case map_of (hookParamOverrides P) hash of None \<Rightarrow> [] | Some params \<Rightarrow> params)
        in (read_len, P\<lparr>overrideCount := overrideCount P + 1,
              hookParamOverrides := map_put hash (map_put name v old) (hookParamOverrides P)\<rparr>))"

text \<open>The parameters of the originating transaction: the first one with the name decides.\<close>

fun otxn_param_value :: "(blob option \<times> blob option) list \<Rightarrow> blob \<Rightarrow> blob option" where
  "otxn_param_value [] name = None"
| "otxn_param_value ((n, v) # params) name = (if n \<noteq> Some name then otxn_param_value params name else v)"

definition otxn_param ::
    "set_data \<Rightarrow> (blob option \<times> blob option) list option \<Rightarrow> blob \<Rightarrow> int \<Rightarrow> int \<Rightarrow> int \<Rightarrow> int \<Rightarrow> int \<times> blob" where
  "otxn_param sd tx_params mem write_ptr write_len read_ptr read_len =
     (if NOT_IN_BOUNDS read_ptr read_len mem then (OUT_OF_BOUNDS, mem)
      else if NOT_IN_BOUNDS write_ptr write_len mem then (OUT_OF_BOUNDS, mem)
      else if read_len < 1 then (TOO_SMALL, mem)
      else if read_len > 32 then (TOO_BIG, mem)
      else case tx_params of
             None \<Rightarrow> (DOESNT_EXIST, mem)
           | Some params \<Rightarrow>
               (case otxn_param_value params (mem_read mem read_ptr read_len) of
                  None \<Rightarrow> (DOESNT_EXIST, mem)
                | Some v \<Rightarrow>
                    if v = [] then (DOESNT_EXIST, mem)
                    else if int (length v) > write_len then (TOO_SMALL, mem)
                    else WRITE_WASM_MEMORY_AND_RETURN sd write_ptr write_len v mem))"

subsection \<open>The chain\<close>

text \<open>\<open>chain\<close> is the hash of every hook of the account, where it has one; a set is the list of its elements.\<close>

definition hook_skip :: "blob option list option \<Rightarrow> blob \<Rightarrow> int \<Rightarrow> int \<Rightarrow> int \<Rightarrow> param_ctx \<Rightarrow> int \<times> param_ctx" where
  "hook_skip chain mem read_ptr read_len flags P =
     (if NOT_IN_BOUNDS read_ptr read_len mem then (OUT_OF_BOUNDS, P)
      else if read_len \<noteq> 32 then (INVALID_ARGUMENT, P)
      else if flags \<noteq> 0 \<and> flags \<noteq> 1 then (INVALID_ARGUMENT, P)
      else
        let hash = mem_read mem read_ptr 32 in
        if flags = 1 then
          if hash \<notin> set (hookSkips P) then (DOESNT_EXIST, P)
          else (1, P\<lparr>hookSkips := removeAll hash (hookSkips P)\<rparr>)
        else if hash \<in> set (hookSkips P) then (1, P)
        else case chain of
               None \<Rightarrow> (INTERNAL_ERROR, P)
             | Some hooks \<Rightarrow>
                 if Some hash \<notin> set hooks then (DOESNT_EXIST, P)
                 else (1, P\<lparr>hookSkips := hash # hookSkips P\<rparr>))"

definition hook_again :: "param_ctx \<Rightarrow> int \<times> param_ctx" where
  "hook_again P =
     (if executeAgainAsWeak P then (ALREADY_SET, P)
      else if isStrong P then (1, P\<lparr>executeAgainAsWeak := True\<rparr>)
      else (PREREQUISITE_NOT_MET, P))"

definition hook_pos :: "param_ctx \<Rightarrow> int" where
  "hook_pos P = hookChainPosition P"

subsection \<open>Properties\<close>

lemma map_of_put_all: "map_of (put_all new m) k = (case map_of (rev new) k of None \<Rightarrow> map_of m k | Some v \<Rightarrow> Some v)"
  by (induction new arbitrary: m) (auto simp: put_all_def map_add_def split: option.splits)

text \<open>A parameter of the installed hook overrides the one of its definition, and the last of equal names counts.\<close>

lemma gather_value:
  assumes "gatherHookParameters (Some d) own [] = (e, ps)"
  shows "\<not> e \<and> map_of ps k =
    (case own of None \<Rightarrow> map_of (rev d) k
     | Some ps' \<Rightarrow> (case map_of (rev ps') k of Some v \<Rightarrow> Some v | None \<Rightarrow> map_of (rev d) k))"
  using assms by (auto simp: gatherHookParameters_def Let_def map_of_put_all split: option.splits)

text \<open>The calls of a hook that can override: the successful ones of \<open>hook_param_set\<close>.\<close>

lemma hook_param_set_value:
  assumes "hook_param_set P mem rp rl kp kl hp hl = (r, P')" "0 \<le> rl"
  shows "r < 0 \<and> P' = P \<or> r = rl \<and> overrideCount P < max_params \<and> overrideCount P' = overrideCount P + 1 \<and>
    hook_param_value hash P' name =
      (if hash = mem_read mem hp 32 \<and> name = mem_read mem kp kl then Some (mem_read mem rp rl) else hook_param_value hash P name)"
proof (cases "r < 0")
  case True
  then show ?thesis using assms by (auto simp: hook_param_set_def Let_def split: if_splits)
next
  case False
  let ?h = "mem_read mem hp 32"
  let ?old = "case map_of (hookParamOverrides P) ?h of None \<Rightarrow> [] | Some params \<Rightarrow> params"
  from False assms have r: "r = rl" "overrideCount P < max_params"
    and P': "P' = P\<lparr>overrideCount := overrideCount P + 1,
      hookParamOverrides := map_put ?h (map_put (mem_read mem kp kl) (mem_read mem rp rl) ?old) (hookParamOverrides P)\<rparr>"
    by (auto simp: hook_param_set_def Let_def split: if_splits)
  show ?thesis
    unfolding P' using r by (auto simp: hook_param_value_def Let_def split: option.splits)
qed

text \<open>
  C19.
  A hook that another hook has given a parameter with \<open>hook_param_set\<close>, naming it by its hash, reads with \<open>hook_param\<close>
  exactly the value that was given, into a buffer that is large enough; nothing else of its memory changes.
\<close>

theorem hook_param_roundtrip:
  assumes sd: "copies sd" and set: "hook_param_set P mem rp rl kp kl hp 32 = (r, P')" "0 < r" "0 \<le> rp"
    and name: "mem_read mem' np kl = mem_read mem kp kl" "np < int (length mem')" "np + kl \<le> int (length mem')"
    and buf: "0 \<le> wp" "wp < int (length mem')" "wp + wl \<le> int (length mem')" "rl \<le> wl"
  shows "hook_param sd (mem_read mem hp 32) P' mem' wp wl np kl = (rl, mem_put mem' (nat wp) (mem_read mem rp rl))"
proof -
  let ?v = "mem_read mem rp rl"
  have ok: "r = rl" "1 \<le> kl" "kl \<le> 32" "rp + rl \<le> int (length mem)"
    using set by (auto simp: hook_param_set_def NOT_IN_BOUNDS_def Let_def maxHookParameterKeySize_def split: if_splits)
  then have len: "int (length ?v) = rl" using set by (simp add: mem_read_def)
  have "hook_param_value (mem_read mem hp 32) P' (mem_read mem' np kl) = Some ?v"
    using hook_param_set_value [OF set(1), of "mem_read mem hp 32" "mem_read mem kp kl"] set(2) ok name by auto
  moreover have "?v \<noteq> []" using len set(2) ok by auto
  moreover have "sd mem' wp ?v = Some (mem_put mem' (nat wp) ?v)" using sd len buf unfolding copies_def by simp
  ultimately show ?thesis
    using ok name buf len
    by (simp add: hook_param_def NOT_IN_BOUNDS_def WRITE_WASM_MEMORY_AND_RETURN_def WRITE_WASM_MEMORY_def Let_def)
qed

theorem hook_param_roundtrip_witness:
  "hook_param put_data (replicate 32 7)
     (snd (hook_param_set \<lparr>hookParamOverrides = [], hookParams = [], overrideCount = 0, hookSkips = [], isStrong = True,
        executeAgainAsWeak = False, hookChainPosition = 0\<rparr> (replicate 32 7 @ [1, 2, 3, 4]) 34 2 32 2 0 32))
     [1, 2, 9, 9, 9] 2 3 0 2 = (2, [1, 2, 3, 4, 9])"
proof -
  let ?P = "\<lparr>hookParamOverrides = [], hookParams = [], overrideCount = 0, hookSkips = [], isStrong = True,
    executeAgainAsWeak = False, hookChainPosition = 0\<rparr>" and ?m = "replicate 32 7 @ [1, 2, 3, 4 :: byte]"
  have "\<exists>P'. hook_param_set ?P ?m 34 2 32 2 0 32 = (2, P')" 
    by (simp add: hook_param_set_def NOT_IN_BOUNDS_def Let_def maxHookParameterKeySize_def maxHookParameterValueSize_def max_params_def)
  then obtain P' where P': "hook_param_set ?P ?m 34 2 32 2 0 32 = (2, P')" by blast
  show ?thesis
    using hook_param_roundtrip [OF copies_put_data P', of "[1, 2, 9, 9, 9]" 0 2 3] P'
    by (simp add: mem_read_def mem_put_def)
qed

end
