(* ===== verification/Govern.thy ===== *)
theory Govern
  imports Hook_Param Hook_State Ieee_Double
begin

text \<open>
  The governance hook of the genesis account, \<^verbatim>\<open>src/hook/genesis/govern.c\<close>: a table of twenty seats whose members
  vote on seats, hooks and rewards.

  The state of the hook is the map from keys of 32 bytes to values that \<open>state_reads_visible\<close> and
  \<open>state_commit_refines\<close> describe: a value of no bytes deletes the entry. A call of \<open>state_set\<close> that the API refuses
  is a parameter, \<open>denied\<close>; the hook then rolls back. What the other API functions say of the ledger is a parameter
  too: the hooks of the account, the hook definitions, and whether an emission succeeds. Buffers on the stack that
  the hook reads before it has written all of their bytes are parameters: their old contents.
\<close>

subsection \<open>Bytes of the source\<close>

abbreviation (input) cC :: byte where "cC \<equiv> 0x43"
abbreviation (input) cD :: byte where "cD \<equiv> 0x44"
abbreviation (input) cH :: byte where "cH \<equiv> 0x48"
abbreviation (input) cR :: byte where "cR \<equiv> 0x52"
abbreviation (input) cS :: byte where "cS \<equiv> 0x53"
abbreviation (input) cV :: byte where "cV \<equiv> 0x56"
abbreviation (input) key_MC :: blob where "key_MC \<equiv> [0x4D, 0x43]"
abbreviation (input) key_RR :: blob where "key_RR \<equiv> [0x52, 0x52]"
abbreviation (input) key_RD :: blob where "key_RD \<equiv> [0x52, 0x44]"

definition SEAT_COUNT :: nat where "SEAT_COUNT = 20"
definition HOOK_MAX :: nat where "HOOK_MAX = 10"

definition genesis :: blob where
  "genesis = [0xB5, 0xF7, 0x62, 0x79, 0x8A, 0x53, 0xD5, 0x43, 0xA0, 0x14, 0xCA, 0xF8, 0xB2, 0x97, 0xCF, 0xF8, 0xF2, 0xF9, 0x37, 0xE8]"

subsection \<open>An execution\<close>

type_synonym store = "blob \<Rightarrow> blob option"

datatype emission = L1_vote byte byte blob | Hook_set nat "blob option"

datatype gov_exit = Done store "emission option" | Nope | Undef

record gov_call =
  otxn_type :: int
  otxn_account :: blob
  otxn_destination :: "blob option"
  hook_account :: blob
  tx_params :: "(blob option \<times> blob option) list"
  hook_params :: "blob \<Rightarrow> blob option"
  denied :: "blob \<Rightarrow> blob \<Rightarrow> bool"
  hook_at :: "nat \<Rightarrow> blob option"
  hook_definition :: "blob \<Rightarrow> bool"
  emits :: bool
  old_account_field :: blob
  old_topic_data :: blob
  old_previous_topic_data :: blob
  old_previous_member :: blob
  old_vote_key :: blob
  old_init :: blob

text \<open>The API functions, on buffers.\<close>

definition skey :: "blob \<Rightarrow> blob" where
  "skey bs = replicate (32 - length bs) 0 @ bs"

definition state_int :: "store \<Rightarrow> blob \<Rightarrow> int" where
  "state_int st key = (case st (skey key) of None \<Rightarrow> DOESNT_EXIST | Some v \<Rightarrow> if v = [] then 0 else data_as_int64 v)"

definition state_into :: "store \<Rightarrow> blob \<Rightarrow> blob \<Rightarrow> int \<times> blob" where
  "state_into st key buf =
     (case st (skey key) of
        None \<Rightarrow> (DOESNT_EXIST, buf)
      | Some v \<Rightarrow>
          if v = [] then (0, buf)
          else if length v > length buf then (TOO_SMALL, buf)
          else (int (length v), v @ drop (length v) buf))"

definition store_put :: "blob \<Rightarrow> blob \<Rightarrow> store \<Rightarrow> store" where
  "store_put key v st = st(key := if v = [] then None else Some v)"

definition state_put :: "gov_call \<Rightarrow> blob \<Rightarrow> blob \<Rightarrow> store \<Rightarrow> gov_exit + store" where
  "state_put c key v st = (if denied c (skey key) v then Inl Nope else Inr (store_put (skey key) v st))"

definition otxn_param_into :: "gov_call \<Rightarrow> blob \<Rightarrow> blob \<Rightarrow> int \<times> blob" where
  "otxn_param_into c name buf =
     (case otxn_param_value (tx_params c) name of
        None \<Rightarrow> (DOESNT_EXIST, buf)
      | Some v \<Rightarrow>
          if v = [] then (DOESNT_EXIST, buf)
          else if length v > length buf then (TOO_SMALL, buf)
          else (int (length v), v @ drop (length v) buf))"

definition hook_param_into :: "gov_call \<Rightarrow> blob \<Rightarrow> blob \<Rightarrow> int \<times> blob" where
  "hook_param_into c name buf =
     (case hook_params c name of
        None \<Rightarrow> (DOESNT_EXIST, buf)
      | Some v \<Rightarrow>
          if v = [] then (DOESNT_EXIST, buf)
          else (int (min (length v) (length buf)), take (length buf) v @ drop (length v) buf))"

subsection \<open>The first execution\<close>

text \<open>The initial members, seat by seat: the reverse key is the seat, the forward key the account.\<close>

fun setup_seats :: "gov_call \<Rightarrow> nat list \<Rightarrow> store \<Rightarrow> gov_exit + store" where
  "setup_seats c [] st = Inr st"
| "setup_seats c (i # is) st =
     (let (len, member_acc) = hook_param_into c [0x49, 0x53, of_nat i] (take 20 (old_init c)) in
      if len \<noteq> 20 then Inl Nope
      else
        rbind (state_put c [of_nat i] member_acc st) (\<lambda>st.
        rbind (state_put c member_acc [of_nat i] st) (\<lambda>st.
        setup_seats c is st)))"

definition setup_rewards :: "gov_call \<Rightarrow> store \<Rightarrow> gov_exit + store" where
  "setup_rewards c st =
     (let (r1, irr) = hook_param_into c [0x49, 0x52, 0x52] (take 8 (old_init c));
          (r2, ird) = hook_param_into c [0x49, 0x52, 0x44] (take 8 (old_init c))
      in if r1 < 0 then Inl Nope
         else if r2 < 0 then Inl Nope
         else if list_all (\<lambda>b. b = 0) ird then Inl Nope
         else
           rbind (state_put c key_RR irr st) (\<lambda>st.
           state_put c key_RD ird st))"

definition gov_setup :: "gov_call \<Rightarrow> bool \<Rightarrow> store \<Rightarrow> gov_exit + store" where
  "gov_setup c is_L1_table st =
     (let (r, buf) = hook_param_into c [0x49, 0x4D, 0x43] (take 1 (old_init c)) in
      if r < 0 then Inl Nope
      else
        rbind (state_put c key_MC buf st) (\<lambda>st.
        let imc = unat (buf ! 0) in
        if imc = 0 then Inl Nope
        else if imc > SEAT_COUNT then Inl Nope
        else
          rbind (if is_L1_table then setup_rewards c st else Inr st) (\<lambda>st.
          setup_seats c [0..<imc] st)))"

subsection \<open>The vote of a member\<close>

definition topic_size :: "byte \<Rightarrow> nat" where
  "topic_size t = (if t = cH then 32 else if t = cS then 20 else 8)"

text \<open>The checks of the parameters: topic type, number, layer, and the topic data in its buffer of 32 bytes.\<close>

definition gov_args :: "gov_call \<Rightarrow> bool \<Rightarrow> gov_exit + (byte \<times> byte \<times> byte \<times> blob)" where
  "gov_args c is_L1_table =
     (let (result, topic) = otxn_param_into c [0x54] [0, 0];
          t = topic ! 0; n = topic ! 1
      in if result \<noteq> 2 \<or> t \<noteq> cS \<and> t \<noteq> cH \<and> t \<noteq> cR then Inl Nope
         else if t = cS \<and> unat n > SEAT_COUNT - 1 then Inl Nope
         else if t = cH \<and> unat n > HOOK_MAX then Inl Nope
         else if t = cR \<and> n \<noteq> cR \<and> n \<noteq> cD then Inl Nope
         else
           rbind
             (if is_L1_table then Inr 1
              else
                let (result, buf) = otxn_param_into c [0x4C] [1] in
                if result \<noteq> 1 then Inl Nope
                else if buf ! 0 \<noteq> 1 \<and> buf ! 0 \<noteq> 2 then Inl Nope
                else Inr (buf ! 0)) (\<lambda>l.
           if l = 2 \<and> t = cR then Inl Nope
           else
             let padding = 32 - topic_size t;
                 (result, data) = otxn_param_into c [0x56] (take (topic_size t) (drop padding (old_topic_data c)))
             in if result \<noteq> int (topic_size t) then Inl Nope
                else Inr (t, n, l, take padding (old_topic_data c) @ data)))"

definition vote_key :: "gov_call \<Rightarrow> byte \<Rightarrow> byte \<Rightarrow> byte \<Rightarrow> blob" where
  "vote_key c t n l = [cV, t, n, l] @ take 8 (drop 4 (old_account_field c)) @ otxn_account c"

definition count_key :: "byte \<Rightarrow> byte \<Rightarrow> byte \<Rightarrow> blob \<Rightarrow> blob" where
  "count_key t n l data = [cC, t, n, l] @ drop 4 data"

text \<open>The number of votes for what the member votes for now, after an earlier vote of the member has been taken back.\<close>

definition undo_vote :: "gov_call \<Rightarrow> byte \<Rightarrow> byte \<Rightarrow> byte \<Rightarrow> blob \<Rightarrow> store \<Rightarrow> gov_exit + store" where
  "undo_vote c t n l previous st =
     (let (r, buf) = state_into st (count_key t n l previous) [0]; votes = buf ! 0 in
      if r \<noteq> 1 then Inl Nope
      else if votes = 0 then Inl Nope
      else state_put c (count_key t n l previous) (if votes - 1 = 0 then [] else [votes - 1]) st)"

definition gov_vote :: "gov_call \<Rightarrow> byte \<Rightarrow> byte \<Rightarrow> byte \<Rightarrow> blob \<Rightarrow> store \<Rightarrow> gov_exit + (byte \<times> store)" where
  "gov_vote c t n l topic_data st =
     (let padding = 32 - topic_size t;
          key = vote_key c t n l;
          (previous_size, previous) = state_into st key (take (topic_size t) (drop padding (old_previous_topic_data c)));
          previous = take padding (old_previous_topic_data c) @ previous
      in if previous_size = int (topic_size t) \<and> previous = topic_data then Inl (Done st None)
         else
           rbind (state_put c key (drop padding topic_data) st) (\<lambda>st.
           rbind (if previous_size > 0 then undo_vote c t n l previous st else Inr st) (\<lambda>st.
           let votes = snd (state_into st (count_key t n l topic_data) [0]) ! 0 + 1 in
           rbind (state_put c (count_key t n l topic_data) [votes] st) (\<lambda>st.
           Inr (votes, st)))))"

text \<open>The thresholds are products of doubles, truncated.\<close>

definition quota :: "rat \<Rightarrow> int \<Rightarrow> int" where
  "quota share member_count = max 2 \<lfloor>dbl_mul (of_int member_count) (dbl share)\<rfloor>"

definition enough_votes :: "bool \<Rightarrow> byte \<Rightarrow> byte \<Rightarrow> int \<Rightarrow> byte \<Rightarrow> bool" where
  "enough_votes is_L1_table t l member_count votes =
     (if is_L1_table \<or> l = 2 then
        \<not> uint votes < (if t = cS then quota (8 / 10) member_count else member_count)
      else \<not> uint votes < quota (51 / 100) member_count)"

subsection \<open>Actions\<close>

definition act_reward :: "gov_call \<Rightarrow> byte \<Rightarrow> byte \<Rightarrow> blob \<Rightarrow> store \<Rightarrow> gov_exit + store" where
  "act_reward c t n topic_data st = state_put c [t, n] (drop 24 topic_data) st"

text \<open>The array \<open>h\<close> of the hooks that are set has ten elements.\<close>

definition act_hook :: "gov_call \<Rightarrow> byte \<Rightarrow> blob \<Rightarrow> store \<Rightarrow> gov_exit" where
  "act_hook c n topic_data st =
     (if hook_at c (unat n) = Some topic_data then Done st None
      else
        let zero = list_all (\<lambda>b. b = 0) topic_data in
        if \<not> zero \<and> \<not> hook_definition c topic_data then Nope
        else if unat n \<ge> 10 then Undef
        else if \<not> emits c then Nope
        else Done st (Some (Hook_set (unat n) (if zero then None else Some topic_data))))"

text \<open>One round of the loop that looks for votes of the member who leaves, \<open>pm\<close> being \<open>previous_member\<close>.\<close>

definition gc_round :: "gov_call \<Rightarrow> blob \<Rightarrow> nat \<Rightarrow> store \<Rightarrow> gov_exit + store" where
  "gc_round c pm i st =
     (let t = (if i < 2 then cR else if i < 12 then cH else cS);
          n = (if i = 0 then cR else if i = 1 then cD else if i < 12 then of_nat (i - 2) else of_nat (i - 12));
          key = [cV, t, n] @ drop 3 pm;
          (r, vote) = state_into st key (take 32 (old_vote_key c))
      in if r \<noteq> 32 then Inr st
         else
           let ckey = [cC, t, n] @ drop 3 vote;
               (r, buf) = state_into st ckey [0];
               vote_count = buf ! 0
           in rbind
                (if r = 1 then
                   if vote_count \<le> 1 then state_put c ckey [] st else state_put c ckey [vote_count - 1] st
                 else Inr st) (\<lambda>st.
              state_put c key [] st))"

fun gc_votes :: "gov_call \<Rightarrow> blob \<Rightarrow> nat list \<Rightarrow> store \<Rightarrow> gov_exit + store" where
  "gc_votes c pm [] st = Inr st"
| "gc_votes c pm (i # is) st = rbind (gc_round c pm i st) (gc_votes c pm is)"

text \<open>The new number of members, by seat empty, data zero, member moving.\<close>

definition new_count :: "bool \<Rightarrow> bool \<Rightarrow> bool \<Rightarrow> int \<Rightarrow> int" where
  "new_count previous_present zero moving member_count =
     (if previous_present \<and> \<not> zero \<and> moving \<or> previous_present \<and> zero \<and> \<not> moving then member_count - 1
      else if \<not> previous_present \<and> \<not> zero \<and> \<not> moving then member_count + 1
      else member_count)"

definition remove_member :: "gov_call \<Rightarrow> byte \<Rightarrow> blob \<Rightarrow> store \<Rightarrow> gov_exit + store" where
  "remove_member c seat acc st =
     rbind (state_put c [seat] [] st) (\<lambda>st. state_put c acc [] st)"

definition add_member :: "gov_call \<Rightarrow> byte \<Rightarrow> blob \<Rightarrow> store \<Rightarrow> gov_exit + store" where
  "add_member c seat acc st =
     rbind (state_put c [seat] acc st) (\<lambda>st. state_put c acc [seat] st)"

definition act_seat :: "gov_call \<Rightarrow> byte \<Rightarrow> blob \<Rightarrow> int \<Rightarrow> store \<Rightarrow> gov_exit + store" where
  "act_seat c n topic_data member_count st =
     (let (r, pm) = state_into st [n] (drop 12 (old_previous_member c));
          pm = take 12 (old_previous_member c) @ pm;
          previous_present = (r = 20);
          acc = drop 12 topic_data;
          zero = list_all (\<lambda>b. b = 0) topic_data
      in if drop 12 pm = acc then Inl (Done st None)
         else
           let existing_member = state_int st acc;
               moving = (existing_member \<ge> 0);
               mc = new_count previous_present zero moving member_count
           in if zero \<and> moving then Inl Nope
              else if \<not> mc > 1 then Inl Nope
              else
                rbind (state_put c key_MC [word_of_int mc] st) (\<lambda>st.
                rbind (if moving then remove_member c (word_of_int existing_member) acc st else Inr st) (\<lambda>st.
                rbind (if previous_present then
                         rbind (gc_votes c pm [1..<32] st) (\<lambda>st. remove_member c n (drop 12 pm) st)
                       else Inr st) (\<lambda>st.
                if zero then Inr st else add_member c n acc st))))"

subsection \<open>The hook\<close>

text \<open>A value that falls out of the end of the code is a rollback; every case ends before.\<close>

definition exit_of :: "gov_exit + store \<Rightarrow> gov_exit" where
  "exit_of r = (case r of Inl e \<Rightarrow> e | Inr st \<Rightarrow> Done st None)"

definition gov_action :: "gov_call \<Rightarrow> bool \<Rightarrow> byte \<Rightarrow> byte \<Rightarrow> byte \<Rightarrow> blob \<Rightarrow> int \<Rightarrow> store \<Rightarrow> gov_exit" where
  "gov_action c is_L1_table t n l topic_data member_count st =
     (if l = 1 \<and> \<not> is_L1_table then
        if emits c then Done st (Some (L1_vote t n (drop (32 - topic_size t) topic_data))) else Nope
      else if t = cR then exit_of (act_reward c t n topic_data st)
      else if t = cH then act_hook c n topic_data st
      else exit_of (act_seat c n topic_data member_count st))"

definition govern :: "gov_call \<Rightarrow> store \<Rightarrow> gov_exit" where
  "govern c st =
     (let is_L1_table = (hook_account c = genesis);
          member_count = state_int st key_MC
      in if otxn_type c \<noteq> 99 then Done st None
         else if hook_account c = otxn_account c \<and>
                 (case otxn_destination c of Some d \<Rightarrow> length d = 20 \<and> d \<noteq> hook_account c | None \<Rightarrow> False) then Done st None
         else if member_count = DOESNT_EXIST then exit_of (gov_setup c is_L1_table st)
         else if state_int st (otxn_account c) < 0 then Nope
         else
           case gov_args c is_L1_table of
             Inl e \<Rightarrow> e
           | Inr (t, n, l, topic_data) \<Rightarrow>
               (case gov_vote c t n l topic_data st of
                  Inl e \<Rightarrow> e
                | Inr (votes, st) \<Rightarrow>
                    if \<not> enough_votes is_L1_table t l member_count votes then Done st None
                    else gov_action c is_L1_table t n l topic_data member_count st))"

end
