(* ===== verification/Govern_Seats.thy ===== *)
theory Govern_Seats
  imports Govern
begin

text \<open>
  The seat table of the governance hook: the entries from seats to accounts and from accounts to seats are inverse to
  each other and their number is the member count, after every execution of the hook.
\<close>

subsection \<open>Keys\<close>

text \<open>
  An account that is none of the short keys of the hook: the padded keys of the seats, of the member count and of
  the rewards have only two bytes that are not zero.
\<close>

definition proper :: "blob \<Rightarrow> bool" where
  "proper acc \<longleftrightarrow> length acc = 20 \<and> take 18 acc \<noteq> replicate 18 0"

lemma skey_long [simp]: "length bs = 32 \<Longrightarrow> skey bs = bs"
  by (simp add: skey_def)

lemma length_skey: "length bs \<le> 32 \<Longrightarrow> length (skey bs) = 32"
  by (simp add: skey_def)

lemma skey_inj: "length a = length b \<Longrightarrow> skey a = skey b \<longleftrightarrow> a = b"
  by (simp add: skey_def)

lemma skey_seat_inj [simp]: "skey [a] = skey [b] \<longleftrightarrow> a = b"
  by (simp add: skey_inj)

lemma skey_short: "length bs \<le> 2 \<Longrightarrow> take 18 (drop 12 (skey bs)) = replicate 18 0"
proof -
  assume l: "length bs \<le> 2"
  then have "skey bs = replicate 30 0 @ drop 30 (skey bs)"
    by (cases bs; cases "tl bs") (auto simp: skey_def replicate_add [symmetric] numeral_eq_Suc)
  then have "take 18 (drop 12 (skey bs)) = take 18 (drop 12 (replicate 30 0 @ drop 30 (skey bs)))" by simp
  then show ?thesis by simp
qed

lemma skey_acc: "length acc = 20 \<Longrightarrow> drop 12 (skey acc) = acc"
  by (simp add: skey_def)

lemma proper_key: "proper acc \<Longrightarrow> length bs \<le> 2 \<Longrightarrow> skey acc \<noteq> skey bs"
  using skey_short [of bs] skey_acc [of acc] by (auto simp: proper_def)

lemma proper_key' : "proper acc \<Longrightarrow> length bs \<le> 2 \<Longrightarrow> skey bs \<noteq> skey acc"
  using proper_key by metis

lemma skey_MC [simp]: "skey key_MC \<noteq> skey [n]" "skey [n] \<noteq> skey key_MC"
proof -
  have "skey [n] = skey [0, n]" using replicate_append_same [of 30 "0 :: byte"] replicate_Suc [of 30 "0 :: byte"] by (simp add: skey_def)
  then show "skey key_MC \<noteq> skey [n]" "skey [n] \<noteq> skey key_MC" using skey_inj [of key_MC "[0, n]"] by auto
qed

lemma hd_skey: "length bs < 32 \<Longrightarrow> hd (skey bs) = 0"
  by (simp add: skey_def hd_append)

subsection \<open>The invariant\<close>

definition seat_ok :: "byte \<Rightarrow> bool" where
  "seat_ok n \<longleftrightarrow> unat n < 20"

definition seat_inv :: "store \<Rightarrow> bool" where
  "seat_inv st \<longleftrightarrow>
     (\<exists>mc. st (skey key_MC) = Some [mc] \<and> unat mc = card {n. seat_ok n \<and> st (skey [n]) \<noteq> None}) \<and>
     (\<forall>n acc. seat_ok n \<longrightarrow> st (skey [n]) = Some acc \<longrightarrow> proper acc \<and> st (skey acc) = Some [n]) \<and>
     (\<forall>acc v. proper acc \<longrightarrow> st (skey acc) = Some v \<longrightarrow> (\<exists>n. seat_ok n \<and> v = [n] \<and> st (skey [n]) = Some acc))"

text \<open>The invariant reads entries whose key starts with a zero byte only.\<close>

definition same_low :: "store \<Rightarrow> store \<Rightarrow> bool" where
  "same_low st st' \<longleftrightarrow> (\<forall>bs. length bs < 32 \<longrightarrow> st' (skey bs) = st (skey bs))"

lemma same_low_refl [simp]: "same_low st st"
  and same_low_trans: "same_low st st' \<Longrightarrow> same_low st' st'' \<Longrightarrow> same_low st st''"
  by (simp_all add: same_low_def)

lemma seat_inv_low1:
  assumes "same_low st st'" "seat_inv st"
  shows "seat_inv st'"
proof -
  have e: "st' (skey [n]) = st (skey [n])" "st' (skey key_MC) = st (skey key_MC)" for n
    using assms(1) by (simp_all add: same_low_def)
  have p: "st' (skey acc) = st (skey acc)" if "proper acc" for acc using assms(1) that by (simp add: same_low_def proper_def)
  show ?thesis
    unfolding seat_inv_def e
  proof (intro conjI allI impI)
    show "\<exists>mc. st (skey key_MC) = Some [mc] \<and> unat mc = card {n. seat_ok n \<and> st (skey [n]) \<noteq> None}"
      using assms(2) unfolding seat_inv_def by blast
  next
    fix n acc assume n: "seat_ok n" "st (skey [n]) = Some acc"
    then have "proper acc" "st (skey acc) = Some [n]" using assms(2) unfolding seat_inv_def by blast+
    then show "proper acc" "st' (skey acc) = Some [n]" using p by auto
  next
    fix acc v assume "proper acc" "st' (skey acc) = Some v"
    then show "\<exists>n. seat_ok n \<and> v = [n] \<and> st (skey [n]) = Some acc"
      using p assms(2) unfolding seat_inv_def by (metis (no_types, lifting))
  qed
qed

lemma seat_inv_low: "same_low st st' \<Longrightarrow> seat_inv st' = seat_inv st"
  using seat_inv_low1 [of st st'] seat_inv_low1 [of st' st] by (auto simp: same_low_def)

lemma state_put_low:
  assumes "state_put c key v st = Inr st'" "length key = 32" "hd key \<noteq> 0"
  shows "same_low st st'"
proof -
  have "skey bs \<noteq> key" if "length bs < 32" for bs using hd_skey [OF that] assms(3) by auto
  then show ?thesis using assms(1,2) by (auto simp: state_put_def same_low_def store_put_def split: if_splits)
qed

subsection \<open>Votes leave the table alone\<close>

text \<open>The buffers of the stack have their size and, as linear memory does before it is written, hold zeros.\<close>

definition clean :: "gov_call \<Rightarrow> bool" where
  "clean c \<longleftrightarrow> old_account_field c = replicate 32 0 \<and> old_topic_data c = replicate 32 0 \<and>
     old_previous_topic_data c = replicate 32 0 \<and> old_previous_member c = replicate 32 0 \<and>
     old_vote_key c = replicate 32 0 \<and> old_init c = replicate 20 0 \<and> length (otxn_account c) = 20"

lemma state_into_length: "length (snd (state_into st key buf)) = length buf"
  by (simp add: state_into_def split: option.splits)

lemma param_into_length: "length (snd (otxn_param_into c name buf)) = length buf"
  by (simp add: otxn_param_into_def split: option.splits)

lemma gov_args_data:
  assumes "gov_args c L1 = Inr (t, n, l, td)" "clean c"
  shows "length td = 32 \<and> take (32 - topic_size t) td = replicate (32 - topic_size t) 0 \<and> (t = cS \<longrightarrow> seat_ok n) \<and>
    (t = cS \<or> t = cH \<or> t = cR) \<and> (l = 1 \<or> l = 2)"
proof -
  obtain result data where d: "otxn_param_into c [0x56] (take (topic_size t) (drop (32 - topic_size t) (old_topic_data c))) = (result, data)"
    by fastforce
  have sz: "topic_size t \<le> 32" by (simp add: topic_size_def)
  have len: "length data = topic_size t" using param_into_length [of c "[0x56]" "take (topic_size t) (drop (32 - topic_size t) (old_topic_data c))"]
      d assms(2) sz by (simp add: clean_def)
  have td: "td = take (32 - topic_size t) (old_topic_data c) @ data"
    and "t = cS \<or> t = cH \<or> t = cR" "t = cS \<longrightarrow> \<not> unat n > SEAT_COUNT - 1" "l = 1 \<or> l = 2"
    using assms(1) d by (auto simp: gov_args_def Let_def res_simps split: prod.splits if_splits)
  then show ?thesis using len sz assms(2) by (auto simp: clean_def seat_ok_def SEAT_COUNT_def)
qed

lemma length_vote_key: "clean c \<Longrightarrow> length (vote_key c t n l) = 32"
  by (simp add: vote_key_def clean_def)

lemma length_count_key: "length data = 32 \<Longrightarrow> length (count_key t n l data) = 32"
  by (simp add: count_key_def)

lemma gov_vote_low:
  assumes "gov_vote c t n l td st = Inr (votes, st')" "clean c" "length td = 32"
  shows "same_low st st'"
proof -
  have hd: "hd (vote_key c t n l) \<noteq> 0" "hd (count_key t n l d) \<noteq> 0" for d by (simp_all add: vote_key_def count_key_def)
  have put: "same_low a b" if "state_put c (count_key t n l d) v a = Inr b" "length d = 32" for a b d v
    by (rule state_put_low [OF that(1)]) (use that(2) hd in \<open>auto simp: length_count_key\<close>)
  have und: "same_low a b" if "undo_vote c t n l d a = Inr b" "length d = 32" for a b d
    using that put by (auto simp: undo_vote_def Let_def split: prod.splits if_splits)
  define pad where "pad = 32 - topic_size t"
  obtain r p where p: "state_into st (vote_key c t n l) (take (topic_size t) (drop pad (old_previous_topic_data c))) = (r, p)" by fastforce
  let ?prev = "take pad (old_previous_topic_data c) @ p"
  have "length p = length (take (topic_size t) (drop pad (old_previous_topic_data c)))"
    using state_into_length [of st "vote_key c t n l" "take (topic_size t) (drop pad (old_previous_topic_data c))"] p by simp
  then have prev: "length ?prev = 32" using assms(2) by (simp add: clean_def pad_def topic_size_def)
  have new: "\<not> (r = int (topic_size t) \<and> ?prev = td)"
    using assms(1) unfolding gov_vote_def Let_def pad_def [symmetric] p prod.case by auto
  from assms(1) obtain s1 s2 where
      s1: "state_put c (vote_key c t n l) (drop pad td) st = Inr s1"
    and s2: "(if r > 0 then undo_vote c t n l ?prev s1 else Inr s1) = Inr s2"
    and s3: "state_put c (count_key t n l td) [votes] s2 = Inr st'"
    unfolding gov_vote_def Let_def pad_def [symmetric] p prod.case if_not_P [OF new] by (auto simp: res_simps)
  have "same_low st s1" by (rule state_put_low [OF s1]) (use assms(2) hd in \<open>auto simp: length_vote_key\<close>)
  moreover have "same_low s1 s2" using s2 und [OF _ prev] by (auto split: if_splits)
  ultimately show ?thesis using put [OF s3 assms(3)] same_low_trans by blast
qed

lemma gc_round_low:
  assumes "gc_round c pm i st = Inr st'" "length pm = 32" "clean c"
  shows "same_low st st'"
proof -
  have put: "same_low a b" if "state_put c ([x, t, n] @ drop 3 d) v a = Inr b" "length d = 32" "x \<noteq> 0" for a b d v x t n
    by (rule state_put_low [OF that(1)]) (use that in auto)
  define t :: byte where "t = (if i < 2 then cR else if i < 12 then cH else cS)"
  define n :: byte where "n = (if i = 0 then cR else if i = 1 then cD else if i < 12 then of_nat (i - 2) else of_nat (i - 12))"
  obtain r vote where v: "state_into st ([cV, t, n] @ drop 3 pm) (take 32 (old_vote_key c)) = (r, vote)" by fastforce
  have vl: "length vote = 32" using state_into_length [of st "[cV, t, n] @ drop 3 pm" "take 32 (old_vote_key c)"] v assms(3)
    by (simp add: clean_def)
  obtain r' buf where b: "state_into st ([cC, t, n] @ drop 3 vote) [0] = (r', buf)" by fastforce
  note unf = assms(1) [unfolded gc_round_def Let_def, folded t_def n_def, unfolded v prod.case b]
  show ?thesis
  proof (cases "r = 32")
    case True
    with unf obtain s where s: "(if r' = 1 then if buf ! 0 \<le> 1 then state_put c ([cC, t, n] @ drop 3 vote) [] st
          else state_put c ([cC, t, n] @ drop 3 vote) [buf ! 0 - 1] st else Inr st) = Inr s"
      and l: "state_put c ([cV, t, n] @ drop 3 pm) [] s = Inr st'" by (auto simp: res_simps)
    have "same_low st s" using s put [OF _ vl, of cC t n] by (auto split: if_splits)
    moreover have "same_low s st'" by (rule put [OF l assms(2)]) simp
    ultimately show ?thesis by (rule same_low_trans)
  qed (use unf in simp)
qed

lemma gc_votes_low: "gc_votes c pm is st = Inr st' \<Longrightarrow> length pm = 32 \<Longrightarrow> clean c \<Longrightarrow> same_low st st'"
proof (induction "is" arbitrary: st)
  case (Cons i "is")
  then obtain s where "gc_round c pm i st = Inr s" "gc_votes c pm is s = Inr st'" by (auto simp: res_simps)
  then show ?case using gc_round_low Cons.IH Cons.prems(2,3) same_low_trans by blast
qed simp

subsection \<open>Members come and go\<close>

definition seats :: "store \<Rightarrow> byte set" where
  "seats st = {n. seat_ok n \<and> st (skey [n]) \<noteq> None}"

definition pair_inv :: "store \<Rightarrow> bool" where
  "pair_inv st \<longleftrightarrow>
     (\<forall>n acc. seat_ok n \<longrightarrow> st (skey [n]) = Some acc \<longrightarrow> proper acc \<and> st (skey acc) = Some [n]) \<and>
     (\<forall>acc v. proper acc \<longrightarrow> st (skey acc) = Some v \<longrightarrow> (\<exists>n. seat_ok n \<and> v = [n] \<and> st (skey [n]) = Some acc))"

lemma seat_inv_pairs:
  "seat_inv st \<longleftrightarrow> pair_inv st \<and> (\<exists>mc. st (skey key_MC) = Some [mc] \<and> unat mc = card (seats st))"
  unfolding seat_inv_def pair_inv_def seats_def by blast

lemma pair_invD:
  assumes "pair_inv st"
  shows "seat_ok n \<Longrightarrow> st (skey [n]) = Some acc \<Longrightarrow> proper acc" "seat_ok n \<Longrightarrow> st (skey [n]) = Some acc \<Longrightarrow> st (skey acc) = Some [n]"
    "proper acc \<Longrightarrow> st (skey acc) = Some v \<Longrightarrow> \<exists>n. seat_ok n \<and> v = [n] \<and> st (skey [n]) = Some acc"
  using assms unfolding pair_inv_def by blast+

lemma seats_finite [simp]: "finite (seats st)"
  by simp

lemma seats_few: "card (seats st) \<le> 20"
proof -
  have "card (seats st) \<le> card {..<20 :: nat}"
    by (rule card_inj_on_le [of unat]) (auto simp: seats_def seat_ok_def inj_on_def word_unat_eq_iff)
  then show ?thesis by simp
qed

lemma proper_inj: "proper a \<Longrightarrow> proper b \<Longrightarrow> skey a = skey b \<longleftrightarrow> a = b"
  by (simp add: proper_def skey_inj)

lemma put_MC:
  assumes "state_put c key_MC v st = Inr st'"
  shows "st' (skey [n]) = st (skey [n])" "proper acc \<Longrightarrow> st' (skey acc) = st (skey acc)"
    "v \<noteq> [] \<Longrightarrow> st' (skey key_MC) = Some v"
  using assms proper_key [of acc key_MC] by (auto simp: state_put_def store_put_def split: if_splits)

text \<open>What a step leaves of the entries of the table.\<close>

definition same_table :: "store \<Rightarrow> store \<Rightarrow> bool" where
  "same_table st st' \<longleftrightarrow> (\<forall>n. st' (skey [n]) = st (skey [n])) \<and> (\<forall>acc. proper acc \<longrightarrow> st' (skey acc) = st (skey acc))"

lemma same_table_pair: "same_table st st' \<Longrightarrow> pair_inv st \<Longrightarrow> pair_inv st'"
  unfolding same_table_def pair_inv_def by metis

lemma same_table_seats: "same_table st st' \<Longrightarrow> seats st' = seats st"
  by (simp add: same_table_def seats_def)

lemma same_low_table: "same_low st st' \<Longrightarrow> same_table st st'"
  by (simp add: same_low_def same_table_def proper_def)

lemma put_MC_table: "state_put c key_MC v st = Inr st' \<Longrightarrow> same_table st st'"
  using put_MC by (simp add: same_table_def)

lemma remove_ok:
  assumes inv: "pair_inv st" and m: "seat_ok m" "st (skey [m]) = Some acc" and r: "remove_member c m acc st = Inr st'"
  shows "pair_inv st'" "seats st' = seats st - {m}" "st' (skey key_MC) = st (skey key_MC)" "st' (skey acc) = None"
    "n \<noteq> m \<Longrightarrow> st' (skey [n]) = st (skey [n])" "st' (skey [m]) = None"
    "proper acc' \<Longrightarrow> acc' \<noteq> acc \<Longrightarrow> st' (skey acc') = st (skey acc')"
proof -
  have p: "proper acc" using pair_invD(1) [OF inv m] .
  have st': "st' = st(skey [m] := None, skey acc := None)"
    using r by (auto simp: remove_member_def state_put_def store_put_def res_simps split: if_splits)
  have seat: "st' (skey [n]) = (if n = m then None else st (skey [n]))" for n
    using proper_key [OF p, of "[n]"] by (auto simp: st')
  have mem: "st' (skey a) = (if a = acc then None else st (skey a))" if "proper a" for a
    using proper_key [OF that, of "[m]"] proper_inj [OF that p] by (auto simp: st')
  show "st' (skey acc) = None" "n \<noteq> m \<Longrightarrow> st' (skey [n]) = st (skey [n])" "st' (skey [m]) = None"
    "proper acc' \<Longrightarrow> acc' \<noteq> acc \<Longrightarrow> st' (skey acc') = st (skey acc')" using seat mem p by auto
  show "st' (skey key_MC) = st (skey key_MC)" using proper_key [OF p, of key_MC] by (auto simp: st')
  show "seats st' = seats st - {m}" by (auto simp: seats_def seat)
  show "pair_inv st'"
    unfolding pair_inv_def
  proof (intro conjI allI impI)
    fix n a assume n: "seat_ok n" "st' (skey [n]) = Some a"
    then have "st (skey [n]) = Some a" "n \<noteq> m" by (auto simp: seat split: if_splits)
    with n(1) have "proper a" "st (skey a) = Some [n]" using pair_invD(1,2) [OF inv] by blast+
    moreover have "a \<noteq> acc" using \<open>n \<noteq> m\<close> calculation(2) pair_invD(2) [OF inv m] by auto
    ultimately show "proper a" "st' (skey a) = Some [n]" by (simp_all add: mem)
  next
    fix a v assume a: "proper a" "st' (skey a) = Some v"
    then have v: "st (skey a) = Some v" "a \<noteq> acc" by (auto simp: mem split: if_splits)
    then obtain n where n: "seat_ok n" "v = [n]" "st (skey [n]) = Some a" using pair_invD(3) [OF inv a(1)] by blast
    moreover have "n \<noteq> m" using n(3) m(2) v(2) by auto
    ultimately show "\<exists>n. seat_ok n \<and> v = [n] \<and> st' (skey [n]) = Some a" by (auto simp: seat)
  qed
qed

lemma add_ok:
  assumes inv: "pair_inv st" and n: "seat_ok n" "st (skey [n]) = None" and p: "proper acc" "st (skey acc) = None"
    and r: "add_member c n acc st = Inr st'"
  shows "pair_inv st'" "seats st' = insert n (seats st)" "st' (skey key_MC) = st (skey key_MC)"
    "st' (skey [n]) = Some acc" "st' (skey acc) = Some [n]"
proof -
  have ne: "acc \<noteq> []" using p(1) by (auto simp: proper_def)
  have st': "st' = st(skey [n] \<mapsto> acc, skey acc \<mapsto> [n])"
    using r ne by (auto simp: add_member_def state_put_def store_put_def res_simps split: if_splits)
  have seat: "st' (skey [k]) = (if k = n then Some acc else st (skey [k]))" for k
    using proper_key [OF p(1), of "[k]"] by (auto simp: st')
  have mem: "st' (skey a) = (if a = acc then Some [n] else st (skey a))" if "proper a" for a
    using proper_key [OF that, of "[n]"] proper_inj [OF that p(1)] by (auto simp: st')
  show "st' (skey [n]) = Some acc" "st' (skey acc) = Some [n]" using seat mem [OF p(1)] by auto
  show "st' (skey key_MC) = st (skey key_MC)" using proper_key [OF p(1), of key_MC] by (auto simp: st')
  show "seats st' = insert n (seats st)" using n(1) by (auto simp: seats_def seat)
  show "pair_inv st'"
    unfolding pair_inv_def
  proof (intro conjI allI impI)
    fix k a assume k: "seat_ok k" "st' (skey [k]) = Some a"
    show "proper a" using k p(1) pair_invD(1) [OF inv k(1)] by (auto simp: seat split: if_splits)
    show "st' (skey a) = Some [k]"
    proof (cases "k = n")
      case True
      then show ?thesis using k mem [OF p(1)] by (simp add: seat)
    next
      case False
      then have a: "st (skey [k]) = Some a" using k by (simp add: seat)
      have "proper a" "st (skey a) = Some [k]" using pair_invD(1,2) [OF inv k(1) a] by blast+
      then show ?thesis using mem p(2) by auto
    qed
  next
    fix a v assume a: "proper a" "st' (skey a) = Some v"
    show "\<exists>k. seat_ok k \<and> v = [k] \<and> st' (skey [k]) = Some a"
    proof (cases "a = acc")
      case True
      then show ?thesis using a mem n(1) by (auto simp: seat)
    next
      case False
      then have "st (skey a) = Some v" using a mem by simp
      then obtain k where k: "seat_ok k" "v = [k]" "st (skey [k]) = Some a" using pair_invD(3) [OF inv a(1)] by blast
      then have "k \<noteq> n" using n(2) by auto
      then show ?thesis using k by (auto simp: seat)
    qed
  qed
qed

subsection \<open>The seat action\<close>

lemma state_int_byte: "st (skey key) = Some [b] \<Longrightarrow> state_int st key = uint b"
  using uint_byte_le [of b] by (simp add: state_int_def data_as_int64_def Let_def)

lemma state_int_account: "st (skey key) = Some v \<Longrightarrow> length v = 20 \<Longrightarrow> state_int st key < 0"
  by (auto simp: state_int_def data_as_int64_def)

lemma skey_zero: "skey (replicate 20 0) = skey [0]"
proof -
  have "replicate 31 (0 :: byte) @ [0] = replicate 12 0 @ replicate 20 0"
    using replicate_append_same [of 31 "0 :: byte"] replicate_Suc [of 31 "0 :: byte"] replicate_add [of 12 20 "0 :: byte"] by simp
  then show ?thesis by (simp add: skey_def)
qed

text \<open>What the hook finds out about the account that is voted for.\<close>

lemma moving_cases:
  assumes inv: "pair_inv st" and acc: "acc = replicate 20 0 \<or> proper acc"
  shows "state_int st acc \<ge> 0 \<longleftrightarrow> proper acc \<and> st (skey acc) \<noteq> None"
    "proper acc \<Longrightarrow> st (skey acc) = Some v \<Longrightarrow> \<exists>m. seat_ok m \<and> word_of_int (state_int st acc) = m \<and> st (skey [m]) = Some acc"
proof -
  show "\<exists>m. seat_ok m \<and> word_of_int (state_int st acc) = m \<and> st (skey [m]) = Some acc" if p: "proper acc" "st (skey acc) = Some v"
  proof -
    obtain m where m: "seat_ok m" "v = [m]" "st (skey [m]) = Some acc" using pair_invD(3) [OF inv p] by blast
    then have "state_int st acc = uint m" using p(2) by (simp add: state_int_byte)
    then show ?thesis using m by simp
  qed
  show "state_int st acc \<ge> 0 \<longleftrightarrow> proper acc \<and> st (skey acc) \<noteq> None"
  proof (cases "st (skey acc)")
    case None
    then show ?thesis by (simp add: state_int_def)
  next
    case (Some v)
    show ?thesis
    proof (cases "proper acc")
      case True
      then obtain n where "v = [n]" using pair_invD(3) [OF inv True Some] by blast
      then show ?thesis using True Some by (simp add: state_int_byte)
    next
      case False
      then have "st (skey [0]) = Some v" using acc Some skey_zero by auto
      then have "proper v" using pair_invD(1) [OF inv, of 0 v] by (simp add: seat_ok_def)
      then show ?thesis using state_int_account [of st acc v] Some False by (auto simp: proper_def)
    qed
  qed
qed

lemma seat_read:
  assumes "pair_inv st" "seat_ok n"
  shows "state_into st [n] (replicate 20 0) =
    (case st (skey [n]) of None \<Rightarrow> (DOESNT_EXIST, replicate 20 0) | Some p \<Rightarrow> (20, p))"
  using pair_invD(1) [OF assms] by (auto simp: state_into_def proper_def split: option.splits)

lemma zero_data: "length td = 32 \<Longrightarrow> take 12 td = replicate 12 0 \<Longrightarrow> list_all (\<lambda>b. b = 0) td \<longleftrightarrow> drop 12 td = replicate 20 (0 :: byte)"
proof -
  assume a: "length td = 32" "take 12 td = replicate 12 0"
  have "list_all (\<lambda>b. b = 0) (take 12 td @ drop 12 td) \<longleftrightarrow> list_all (\<lambda>b. b = 0) (drop 12 td)"
    unfolding list_all_append a(2) by (simp add: list_all_iff)
  moreover have "list_all (\<lambda>b. b = 0) (drop 12 td) \<longleftrightarrow> drop 12 td = replicate 20 0"
    using a(1) replicate_eqI [of "drop 12 td" 20 0] by (auto simp: list_all_iff)
  ultimately show ?thesis by simp
qed

text \<open>The state the actions start from: the table, the count of members and the data of a vote on a seat.\<close>

definition seat_vote :: "gov_call \<Rightarrow> byte \<Rightarrow> blob \<Rightarrow> bool" where
  "seat_vote c n td \<longleftrightarrow> clean c \<and> seat_ok n \<and> length td = 32 \<and> take 12 td = replicate 12 0 \<and>
     (drop 12 td = replicate 20 0 \<or> proper (drop 12 td))"

lemma count_new:
  assumes "card A \<le> 20" "pp \<longleftrightarrow> n \<in> A" "\<not> (zero \<and> moving)" "\<not> (\<not> pp \<and> zero)"
    "moving \<Longrightarrow> m \<in> A \<and> m \<noteq> n" "finite A"
    "B = (let A1 = (if moving then A - {m} else A); A2 = (if pp then A1 - {n} else A1) in if zero then A2 else insert n A2)"
  shows "new_count pp zero moving (int (card A)) = int (card B)"
proof -
  have cm: "int (card (A - {x})) = int (card A) - 1" if "x \<in> A" for x
    using that assms(6) card_gt_0_iff [of A] by (auto simp: card_Diff_singleton of_nat_diff)
  have cn: "int (card (insert n (A - X))) = int (card (A - X - {n})) + 1" for X
    using assms(6) by (simp add: card.insert_remove)
  consider (replace) "n \<in> A" "\<not> zero" "\<not> moving" | (swap) "n \<in> A" "\<not> zero" "moving" | (delete) "n \<in> A" "zero" "\<not> moving"
    | (fresh) "n \<notin> A" "\<not> zero" "\<not> moving" | (move) "n \<notin> A" "\<not> zero" "moving" using assms(2-4) by blast
  then show ?thesis
  proof cases
    case replace
    then have "B = A" using assms(2) by (auto simp: assms(7) Let_def)
    then show ?thesis using replace assms(2) by (simp add: new_count_def)
  next
    case swap
    then have "B = A - {m}" using assms(2,5) by (auto simp: assms(7) Let_def)
    then show ?thesis using swap assms(2,5) cm [of m] by (simp add: new_count_def)
  next
    case delete
    then have "B = A - {n}" using assms(2) by (auto simp: assms(7) Let_def)
    then show ?thesis using delete assms(2) cm [of n] by (simp add: new_count_def)
  next
    case fresh
    then have "B = insert n A" using assms(2) by (auto simp: assms(7) Let_def)
    then show ?thesis using fresh assms(2,6) by (simp add: new_count_def)
  next
    case move
    then have "B = insert n (A - {m})" using assms(2) by (auto simp: assms(7) Let_def)
    then show ?thesis using move assms(2,5,6) cm [of m] by (simp add: new_count_def)
  qed
qed

lemma member_count:
  assumes "seat_inv st"
  shows "state_int st key_MC = int (card (seats st))"
proof -
  obtain b where b: "st (skey key_MC) = Some [b]" "unat b = card (seats st)" using assms by (auto simp: seat_inv_pairs)
  have "uint b = int (unat b)" by (rule uint_nat)
  then show ?thesis using state_int_byte [of st key_MC b] b by simp
qed

definition holder :: "store \<Rightarrow> byte \<Rightarrow> blob" where
  "holder st n = (case st (skey [n]) of None \<Rightarrow> replicate 20 0 | Some p \<Rightarrow> p)"

text \<open>The action in terms of the table.\<close>

lemma act_seat_unfold:
  assumes v: "seat_vote c n td" and inv: "pair_inv st" and acc: "acc = drop 12 td"
    and zero: "zero \<longleftrightarrow> acc = replicate 20 0" and moving: "moving \<longleftrightarrow> proper acc \<and> st (skey acc) \<noteq> None"
    and pp: "pp \<longleftrightarrow> st (skey [n]) \<noteq> None"
  shows "act_seat c n td mc st =
    (if holder st n = acc then Inl (Done st None)
     else if zero \<and> moving then Inl Nope
     else if \<not> new_count pp zero moving mc > 1 then Inl Nope
     else
       rbind (state_put c key_MC [word_of_int (new_count pp zero moving mc)] st) (\<lambda>s.
       rbind (if moving then remove_member c (word_of_int (state_int st acc)) acc s else Inr s) (\<lambda>s.
       rbind (if pp then rbind (gc_votes c (replicate 12 0 @ holder st n) [1..<32] s) (\<lambda>s. remove_member c n (holder st n) s) else Inr s) (\<lambda>s.
       if zero then Inr s else add_member c n acc s))))"
proof -
  have cl: "drop 12 (old_previous_member c) = replicate 20 0" "take 12 (old_previous_member c) = replicate 12 0"
    and n: "seat_ok n" and td: "length td = 32" "take 12 td = replicate 12 0" and a: "acc = replicate 20 0 \<or> proper acc"
    using v acc by (auto simp: seat_vote_def clean_def)
  have rd: "state_into st [n] (replicate 20 0) = (if pp then 20 else DOESNT_EXIST, holder st n)"
    using seat_read [OF inv n] pp by (auto simp: holder_def split: option.splits)
  have z: "list_all (\<lambda>b. b = 0) td \<longleftrightarrow> zero" using zero_data [OF td] zero acc by simp
  have m: "state_int st acc \<ge> 0 \<longleftrightarrow> moving" using moving_cases(1) [OF inv a] moving by simp
  have r: "(if pp then 20 else DOESNT_EXIST) = (20 :: int) \<longleftrightarrow> pp" by simp
  have dr: "drop 12 (replicate 12 0 @ holder st n) = holder st n" by simp
  show ?thesis
    unfolding act_seat_def Let_def cl rd prod.case acc [symmetric] z m r dr by (rule refl)
qed

definition nope :: "gov_exit + 'a \<Rightarrow> bool" where
  "nope r \<longleftrightarrow> (\<forall>e. r = Inl e \<longrightarrow> e = Nope)"

lemma nope_simps [simp]: "nope (Inr a)" "nope (Inl e) \<longleftrightarrow> e = Nope"
  by (simp_all add: nope_def)

lemma nope_bind: "nope m \<Longrightarrow> (\<And>a. nope (f a)) \<Longrightarrow> nope (rbind m f)"
  by (cases m) (auto simp: nope_def)

lemma nope_if: "nope a \<Longrightarrow> nope b \<Longrightarrow> nope (if p then a else b)"
  by simp

lemma nope_put: "nope (state_put c k x a)"
  by (simp add: state_put_def)

lemma nope_members: "nope (remove_member c k x a)" "nope (add_member c k x a)"
  unfolding remove_member_def add_member_def by (intro nope_bind nope_put)+

lemma nope_gc: "nope (gc_votes c pm is st)"
proof (induction "is" arbitrary: st)
  case (Cons i "is")
  have "nope (gc_round c pm i st)" unfolding gc_round_def Let_def prod.case_eq_if by (intro nope_if nope_bind nope_put nope_simps(1))
  then show ?case unfolding gc_votes.simps by (rule nope_bind) (rule Cons.IH)
qed simp

lemmas nope_intros = nope_if nope_bind nope_put nope_members nope_gc nope_simps(1)

lemma act_seat_ok:
  assumes v: "seat_vote c n td" and inv: "seat_inv st" and acc: "acc = drop 12 td"
  shows "case act_seat c n td (state_int st key_MC) st of
      Inl e \<Rightarrow> e = Nope \<or> e = Done st None
    | Inr st' \<Rightarrow> seat_inv st' \<and> st' (skey [n]) = (if acc = replicate 20 0 then None else Some acc)"
proof (cases "act_seat c n td (state_int st key_MC) st")
  case (Inl e)
  have pair: "pair_inv st" using inv by (simp add: seat_inv_pairs)
  have "nope (act_seat c n td (state_int st key_MC) st) \<or> act_seat c n td (state_int st key_MC) st = Inl (Done st None)"
    unfolding act_seat_unfold [OF v pair acc refl refl refl]
    by (cases "holder st n = acc") (simp, simp only: if_False simp_thms, intro disjI1 nope_intros, simp_all)
  then show ?thesis using Inl by (auto simp: nope_def)
next
  case (Inr st')
  define zero where "zero \<longleftrightarrow> acc = replicate 20 0"
  define moving where "moving \<longleftrightarrow> proper acc \<and> st (skey acc) \<noteq> None"
  define pp where "pp \<longleftrightarrow> st (skey [n]) \<noteq> None"
  define nc where "nc = new_count pp zero moving (state_int st key_MC)"
  define m :: byte where "m = word_of_int (state_int st acc)"
  have pair: "pair_inv st" and n: "seat_ok n" and cl: "clean c" and pa: "zero \<or> proper acc"
    using v inv acc by (auto simp: seat_vote_def seat_inv_pairs zero_def)
  have mc: "state_int st key_MC = int (card (seats st))" by (rule member_count [OF inv])
  note unf = act_seat_unfold [OF v pair acc zero_def moving_def pp_def, of "state_int st key_MC", folded nc_def m_def]
  have ne: "holder st n \<noteq> acc" and nc1: "1 < nc" and zm: "\<not> (zero \<and> moving)" using Inr unf by (auto split: if_splits)
  have nz: "\<not> (\<not> pp \<and> zero)" using ne by (auto simp: holder_def pp_def zero_def)
  have mm: "seat_ok m \<and> st (skey [m]) = Some acc \<and> m \<noteq> n" if moving
    using that moving_cases(2) [OF pair, of acc] ne unfolding moving_def m_def by (auto simp: holder_def)
  from Inr obtain s1 s2 s3 where s1: "state_put c key_MC [word_of_int nc] st = Inr s1"
    and s2: "(if moving then remove_member c m acc s1 else Inr s1) = Inr s2"
    and s3: "(if pp then rbind (gc_votes c (replicate 12 0 @ holder st n) [1..<32] s2) (\<lambda>s. remove_member c n (holder st n) s) else Inr s2) = Inr s3"
    and s4: "(if zero then Inr s3 else add_member c n acc s3) = Inr st'"
    unfolding unf using ne nc1 zm by (auto simp: res_simps)
  have t1: "same_table st s1" by (rule put_MC_table [OF s1])
  have p1: "pair_inv s1" "seats s1 = seats st" "s1 (skey key_MC) = Some [word_of_int nc]"
    using same_table_pair [OF t1 pair] same_table_seats [OF t1] put_MC(3) [OF s1] by auto
  have p2: "pair_inv s2 \<and> seats s2 = (if moving then seats st - {m} else seats st) \<and> s2 (skey key_MC) = Some [word_of_int nc] \<and>
      s2 (skey [n]) = st (skey [n]) \<and> (proper acc \<longrightarrow> s2 (skey acc) = None)"
  proof (cases moving)
    case True
    then have "seat_ok m" "s1 (skey [m]) = Some acc" "n \<noteq> m" using mm t1 by (auto simp: same_table_def)
    from remove_ok [OF p1(1) this(1,2), of c s2] show ?thesis using True s2 p1 t1 \<open>n \<noteq> m\<close> by (auto simp: same_table_def)
  next
    case False
    then show ?thesis using s2 p1 t1 by (auto simp: same_table_def moving_def)
  qed
  have p3: "pair_inv s3 \<and> seats s3 = (if pp then seats s2 - {n} else seats s2) \<and> s3 (skey key_MC) = Some [word_of_int nc] \<and>
      s3 (skey [n]) = None \<and> (proper acc \<longrightarrow> s3 (skey acc) = None)"
  proof (cases pp)
    case True
    then obtain p where p: "st (skey [n]) = Some p" "holder st n = p" by (auto simp: pp_def holder_def)
    from s3 True obtain g where g: "gc_votes c (replicate 12 0 @ p) [1..<32] s2 = Inr g" "remove_member c n p g = Inr s3"
      using p(2) by (auto simp: res_simps)
    have "length p = 20" using pair_invD(1) [OF pair n p(1)] by (simp add: proper_def)
    then have low: "same_low s2 g" using gc_votes_low [OF g(1)] cl by simp
    note t = same_low_table [OF low]
    have "pair_inv g" "seats g = seats s2" "g (skey [n]) = Some p" "g (skey key_MC) = Some [word_of_int nc]"
      "proper acc \<longrightarrow> g (skey acc) = None"
      using same_table_pair [OF t] same_table_seats [OF t] p2 p(1) low t by (auto simp: same_table_def same_low_def)
    with remove_ok [OF \<open>pair_inv g\<close> n _ g(2)] show ?thesis using True ne p(2) by auto
  next
    case False
    then show ?thesis using s3 p2 by (auto simp: pp_def)
  qed
  have p4: "pair_inv st' \<and> seats st' = (if zero then seats s3 else insert n (seats s3)) \<and> st' (skey key_MC) = Some [word_of_int nc] \<and>
      st' (skey [n]) = (if zero then None else Some acc)"
  proof (cases zero)
    case False
    then have "proper acc" using pa by simp
    then show ?thesis using add_ok [OF _ n, of s3 acc c st'] p3 s4 False by auto
  qed (use s4 p3 in auto)
  have "nc = int (card (seats st'))"
    unfolding nc_def mc
    by (rule count_new [where n = n and m = m]) (use seats_few n zm nz mm p2 p3 p4 in \<open>auto simp: pp_def seats_def\<close>)
  moreover have "card (seats st') \<le> 20" by (rule seats_few)
  ultimately have "unat (word_of_int nc :: byte) = card (seats st')" by (simp add: unsigned_of_nat take_bit_nat_eq_self)
  then have "seat_inv st'" using p4 by (auto simp: seat_inv_pairs)
  then show ?thesis using Inr p4 by (simp add: zero_def)
qed

subsection \<open>Every execution keeps the table\<close>

lemma skey_two: "a \<noteq> 0 \<Longrightarrow> skey [a, b] \<noteq> skey [n]"
proof -
  assume "a \<noteq> 0"
  have "skey [n] = skey [0, n]"
    using replicate_append_same [of 30 "0 :: byte"] replicate_Suc [of 30 "0 :: byte"] by (simp add: skey_def)
  then show ?thesis using skey_inj [of "[a, b]" "[0, n]"] \<open>a \<noteq> 0\<close> by auto
qed

text \<open>Writing one of the keys of two bytes.\<close>

lemma put_two:
  assumes "state_put c [a, b] v st = Inr st'" "a \<noteq> 0"
  shows "same_table st st'" "[a, b] \<noteq> key_MC \<Longrightarrow> st' (skey key_MC) = st (skey key_MC)"
proof -
  have ne: "skey [n] \<noteq> skey [a, b]" "proper acc \<Longrightarrow> skey acc \<noteq> skey [a, b]" "[a, b] \<noteq> key_MC \<Longrightarrow> skey key_MC \<noteq> skey [a, b]" for n acc
    using skey_two [OF assms(2), of b n] proper_key [of acc "[a, b]"] skey_inj [of "[a, b]" key_MC] by auto
  have "st' = store_put (skey [a, b]) v st" using assms(1) by (simp add: state_put_def split: if_splits)
  then show "same_table st st'" "[a, b] \<noteq> key_MC \<Longrightarrow> st' (skey key_MC) = st (skey key_MC)"
    using ne by (simp_all add: same_table_def store_put_def)
qed

lemma seat_inv_table:
  assumes "seat_inv st" "same_table st st'" "st' (skey key_MC) = st (skey key_MC)"
  shows "seat_inv st'"
  using assms same_table_pair [OF assms(2)] same_table_seats [OF assms(2)] by (simp add: seat_inv_pairs)

text \<open>The initial members: proper accounts, no two seats with the same.\<close>

definition initial_member :: "gov_call \<Rightarrow> nat \<Rightarrow> blob option" where
  "initial_member c i = map_option (take 20) (hook_params c [0x49, 0x53, of_nat i])"

definition sane :: "gov_call \<Rightarrow> bool" where
  "sane c \<longleftrightarrow> clean c \<and>
     (\<forall>i < 20. \<forall>a. initial_member c i = Some a \<longrightarrow> length a = 20 \<longrightarrow> proper a \<and> (\<forall>j < i. initial_member c j \<noteq> Some a)) \<and>
     (\<forall>v. otxn_param_value (tx_params c) [0x56] = Some v \<longrightarrow> length v = 20 \<longrightarrow> v = replicate 20 0 \<or> proper v)"

lemma setup_step:
  assumes "setup_seats c (i # is) st = Inr st'" "clean c"
  shows "\<exists>a s. initial_member c i = Some a \<and> length a = 20 \<and> add_member c (of_nat i) a st = Inr s \<and> setup_seats c is s = Inr st'"
proof -
  obtain len a where p: "hook_param_into c [0x49, 0x53, of_nat i] (replicate 20 0) = (len, a)" by fastforce
  have buf: "take 20 (old_init c) = replicate 20 0" using assms(2) by (simp add: clean_def)
  have 20: "len = 20" and r: "rbind (add_member c (of_nat i) a st) (\<lambda>s. setup_seats c is s) = Inr st'"
    using assms(1) by (auto simp: buf p add_member_def rbind_assoc split: if_splits)
  obtain v where v: "hook_params c [0x49, 0x53, of_nat i] = Some v" "a = take 20 v @ drop (length v) (replicate 20 0)" "len = int (min (length v) 20)"
    using p 20 by (auto simp: hook_param_into_def split: option.splits if_splits)
  then have "20 \<le> length v" using 20 by (auto simp: min_def split: if_splits)
  then have "a = take 20 v" "length a = 20" using v by auto
  then show ?thesis using r v(1) by (auto simp: initial_member_def res_simps)
qed

lemma setup_seats_ok:
  assumes "setup_seats c [i..<k] st = Inr st'" "sane c" "i \<le> k" "k \<le> 20" "pair_inv st" "seats st = of_nat ` {..<i}"
    "\<forall>j < i. st (skey [of_nat j]) = initial_member c j"
  shows "pair_inv st' \<and> seats st' = of_nat ` {..<k} \<and> st' (skey key_MC) = st (skey key_MC)"
  using assms
proof (induction "k - i" arbitrary: i st)
  case 0
  then show ?case by simp
next
  case (Suc d)
  then have ik: "i < k" and cl: "clean c" by (auto simp: sane_def)
  then have l: "[i..<k] = i # [Suc i..<k]" by (simp add: upt_conv_Cons)
  obtain a s where a: "initial_member c i = Some a" "length a = 20" "add_member c (of_nat i) a st = Inr s" "setup_seats c [Suc i..<k] s = Inr st'"
    using setup_step Suc.prems(1) cl unfolding l by blast
  have u: "unat (of_nat j :: byte) = j" if "j < 20" for j using that by (simp add: unsigned_of_nat take_bit_nat_eq_self)
  have inj: "(of_nat j :: byte) = of_nat j' \<longleftrightarrow> j = j'" if "j < 20" "j' < 20" for j j' using u [OF that(1)] u [OF that(2)] by metis
  have i20: "i < 20" using ik Suc.prems(4) by simp
  have ok: "seat_ok (of_nat i)" using i20 u by (simp add: seat_ok_def)
  have pr: "proper a" and new: "\<forall>j < i. initial_member c j \<noteq> Some a" using Suc.prems(2) a(1,2) i20 unfolding sane_def by blast+
  have "of_nat i \<notin> seats st" using Suc.prems(6) inj i20 by (auto simp: image_iff)
  then have none: "st (skey [of_nat i]) = None" using ok by (simp add: seats_def)
  have "st (skey a) = None"
  proof (rule ccontr)
    assume "st (skey a) \<noteq> None"
    then obtain n where n: "seat_ok n" "st (skey [n]) = Some a" using pair_invD(3) [OF Suc.prems(5) pr] by blast
    then have "n \<in> seats st" by (simp add: seats_def)
    then obtain j where "j < i" "n = of_nat j" using Suc.prems(6) by auto
    then show False using n(2) Suc.prems(7) new by simp
  qed
  note add = add_ok [OF Suc.prems(5) ok none pr this a(3)]
  have seat: "s (skey [of_nat j]) = initial_member c j" if "j < Suc i" for j
  proof (cases "j = i")
    case False
    then have "j < i" "(of_nat j :: byte) \<noteq> of_nat i" using that inj i20 by auto
    then have "s (skey [of_nat j]) = st (skey [of_nat j])"
      using a(3) proper_key' [OF pr, of "[of_nat j]"] pr
      by (auto simp: add_member_def state_put_def store_put_def res_simps proper_def split: if_splits)
    then show ?thesis using Suc.prems(7) \<open>j < i\<close> by simp
  qed (use add(4) a(1) in simp)
  have "seats s = of_nat ` {..<Suc i}" using add(2) Suc.prems(6) by (simp add: lessThan_Suc)
  then have "pair_inv st' \<and> seats st' = of_nat ` {..<k} \<and> st' (skey key_MC) = s (skey key_MC)"
    using Suc.hyps(1) [of "Suc i" s] Suc.hyps(2) a(4) Suc.prems(2,4) ik add(1) seat by simp
  then show ?case using add(3) by simp
qed

end
