(* ===== verification/Govern_Table.thy ===== *)
theory Govern_Table
  imports Govern_Seats
begin

text \<open>
  The seat table of the governance hook over its whole life: from the first execution on the entries stay consistent.
\<close>

subsection \<open>One execution\<close>

lemma setup_ok:
  assumes "gov_setup c L1 Map.empty = Inr st'" "sane c"
  shows "seat_inv st'"
proof -
  obtain r buf where p: "hook_param_into c [0x49, 0x4D, 0x43] [0] = (r, buf)" by fastforce
  have init: "take 1 (old_init c) = [0]" "take 8 (old_init c) = replicate 8 0"
    using assms(2) by (simp_all add: sane_def clean_def)
  have len: "length buf = 1" using p by (auto simp: hook_param_into_def split: option.splits if_splits)
  then obtain b where b: "buf = [b]" by (auto simp: length_Suc_conv)
  from assms(1) obtain s1 s2 where s1: "state_put c key_MC [b] Map.empty = Inr s1" and imc: "0 < unat b" "unat b \<le> 20"
    and s2: "(if L1 then setup_rewards c s1 else Inr s1) = Inr s2" and s3: "setup_seats c [0..<unat b] s2 = Inr st'"
    unfolding gov_setup_def Let_def init p prod.case b by (auto simp: SEAT_COUNT_def res_simps split: if_splits)
  have t1: "same_table Map.empty s1" "s1 (skey key_MC) = Some [b]" using put_MC_table [OF s1] put_MC(3) [OF s1] by auto
  have t2: "same_table s1 s2 \<and> s2 (skey key_MC) = s1 (skey key_MC)"
  proof (cases L1)
    case True
    with s2 obtain irr ird s where "state_put c key_RR irr s1 = Inr s" "state_put c key_RD ird s = Inr s2"
      by (auto simp: setup_rewards_def Let_def res_simps split: prod.splits if_splits)
    from put_two [OF this(1)] put_two [OF this(2)] show ?thesis by (auto simp: same_table_def)
  qed (use s2 in \<open>simp add: same_table_def\<close>)
  have tab: "same_table Map.empty s2" using t1 t2 by (auto simp: same_table_def)
  have "pair_inv Map.empty" "seats Map.empty = {}" by (simp_all add: pair_inv_def seats_def)
  then have "pair_inv s2" "seats s2 = {}" using same_table_pair [OF tab] same_table_seats [OF tab] by auto
  then have fin: "pair_inv st' \<and> seats st' = of_nat ` {..<unat b} \<and> st' (skey key_MC) = Some [b]"
    using setup_seats_ok [OF s3 assms(2)] imc t1 t2 by simp
  have "card ((of_nat :: nat \<Rightarrow> byte) ` {..<unat b}) = unat b"
  proof -
    have "inj_on (of_nat :: nat \<Rightarrow> byte) {..<unat b}"
      by (rule inj_on_inverseI [of _ unat]) (use imc in \<open>auto simp: unsigned_of_nat take_bit_nat_eq_self\<close>)
    then show ?thesis by (simp add: card_image)
  qed
  then show ?thesis using fin by (simp add: seat_inv_pairs)
qed

lemma sane_seat_vote:
  assumes "gov_args c L1 = Inr (t, n, l, td)" "sane c" "t = cS"
  shows "seat_vote c n td"
proof -
  have cl: "clean c" using assms(2) by (simp add: sane_def)
  note d = gov_args_data [OF assms(1) cl]
  obtain result data where o: "otxn_param_into c [0x56] (replicate 20 0) = (result, data)" by fastforce
  have td: "td = replicate 12 0 @ data" and r: "result = 20"
    using assms(1,3) cl o by (auto simp: gov_args_def Let_def res_simps topic_size_def clean_def split: prod.splits if_splits)
  then obtain v where v: "otxn_param_value (tx_params c) [0x56] = Some v" "length v = 20" "data = v"
    using o by (auto simp: otxn_param_into_def split: option.splits if_splits)
  have "v = replicate 20 0 \<or> proper v" using assms(2) v(1,2) unfolding sane_def by blast
  then show ?thesis using d cl td v(3) assms(3) by (simp add: seat_vote_def)
qed

lemma gov_vote_exit: "gov_vote c t n l td st = Inl e \<Longrightarrow> e = Nope \<or> e = Done st None"
proof -
  assume e: "gov_vote c t n l td st = Inl e"
  have und: "nope (undo_vote c t n l p s)" for p s unfolding undo_vote_def Let_def prod.case_eq_if by (intro nope_if nope_put) simp_all
  define pad where "pad = 32 - topic_size t"
  obtain r p where p: "state_into st (vote_key c t n l) (take (topic_size t) (drop pad (old_previous_topic_data c))) = (r, p)" by fastforce
  note unf = gov_vote_def [of c t n l td st, unfolded Let_def, folded pad_def, unfolded p prod.case]
  show ?thesis
  proof (cases "r = int (topic_size t) \<and> take pad (old_previous_topic_data c) @ p = td")
    case True
    then show ?thesis using e unfolding unf by simp
  next
    case False
    have "nope (gov_vote c t n l td st)"
      unfolding unf if_not_P [OF False] by (intro nope_bind nope_if nope_put und nope_simps(1))
    then show ?thesis using e by (simp add: nope_def)
  qed
qed

text \<open>An execution of a well-behaved call keeps the invariant.\<close>

lemma act_reward_ok: "act_reward c cR n td st = Inr st' \<Longrightarrow> seat_inv st \<Longrightarrow> seat_inv st'"
  using put_two [of c cR n "drop 24 td" st st'] seat_inv_table [of st st'] by (simp add: act_reward_def)

lemma gov_action_ok:
  assumes "gov_action c L1 t n l td (state_int st key_MC) st = Done st' e" "seat_inv st" "t = cS \<or> t = cH \<or> t = cR"
    "t = cS \<Longrightarrow> seat_vote c n td"
  shows "seat_inv st'"
proof (cases "l = 1 \<and> \<not> L1")
  case True
  then show ?thesis using assms(1,2) by (auto simp: gov_action_def split: if_splits)
next
  case False
  consider "t = cR" | "t = cH" | "t = cS" using assms(3) by blast
  then show ?thesis
  proof cases
    case 1
    then have "exit_of (act_reward c cR n td st) = Done st' e" using assms(1) False by (auto simp: gov_action_def)
    then have "act_reward c cR n td st = Inr st'"
      by (auto simp: exit_of_def act_reward_def state_put_def split: sum.splits if_splits)
    then show ?thesis using act_reward_ok assms(2) by blast
  next
    case 2
    then show ?thesis using assms(1,2) False by (auto simp: gov_action_def act_hook_def Let_def split: if_splits)
  next
    case 3
    then have ex: "exit_of (act_seat c n td (state_int st key_MC) st) = Done st' e" using assms(1) False by (auto simp: gov_action_def)
    show ?thesis
      using act_seat_ok [OF assms(4) [OF 3] assms(2) refl] ex assms(2) by (auto simp: exit_of_def split: sum.splits)
  qed
qed

lemma govern_vote_cases:
  assumes "govern c st = Done st' e" "state_int st key_MC \<noteq> DOESNT_EXIST"
  shows "st' = st \<or> (\<exists>t n l td votes s. gov_args c (hook_account c = genesis) = Inr (t, n, l, td) \<and>
    gov_vote c t n l td st = Inr (votes, s) \<and>
    (st' = s \<or> gov_action c (hook_account c = genesis) t n l td (state_int st key_MC) s = Done st' e))"
proof -
  let ?L1 = "hook_account c = genesis"
  have args: "nope (gov_args c ?L1)"
    unfolding gov_args_def Let_def prod.case_eq_if by (intro nope_if nope_bind nope_simps(1)) simp_all
  show ?thesis
  proof (cases "gov_args c ?L1")
    case (Inl x)
    then have "x = Nope" using args by (simp add: nope_def)
    then show ?thesis using assms Inl unfolding govern_def Let_def by (simp split: if_splits)
  next
    case (Inr a)
    obtain t n l td where a: "a = (t, n, l, td)" by (cases a)
    show ?thesis
    proof (cases "gov_vote c t n l td st")
      case x: (Inl x)
      then have "x = Nope \<or> x = Done st None" by (rule gov_vote_exit)
      then show ?thesis using assms Inr a x unfolding govern_def Let_def by (auto split: if_splits)
    next
      case v: (Inr v)
      obtain votes s where vs: "v = (votes, s)" by (cases v)
      have "st' = st \<or> st' = s \<or> gov_action c ?L1 t n l td (state_int st key_MC) s = Done st' e"
        using assms Inr a v vs unfolding govern_def Let_def by (simp split: if_splits)
      then show ?thesis using Inr a v vs by blast
    qed
  qed
qed

lemma govern_keeps:
  assumes "govern c st = Done st' e" "sane c" "seat_inv st"
  shows "seat_inv st'"
proof -
  have cl: "clean c" using assms(2) by (simp add: sane_def)
  have mc: "state_int st key_MC \<noteq> DOESNT_EXIST" using member_count [OF assms(3)] by simp
  from govern_vote_cases [OF assms(1) mc] show ?thesis
  proof (elim disjE exE conjE)
    fix t n l td votes s
    assume a: "gov_args c (hook_account c = genesis) = Inr (t, n, l, td)" and v: "gov_vote c t n l td st = Inr (votes, s)"
    note d = gov_args_data [OF a cl]
    have low: "same_low st s" using gov_vote_low [OF v cl] d by simp
    then have s: "seat_inv s" "state_int s key_MC = state_int st key_MC"
      using seat_inv_low [OF low] assms(3) by (auto simp: same_low_def state_int_def)
    show "seat_inv st'" if "st' = s" using that s by simp
    show "seat_inv st'" if "gov_action c (hook_account c = genesis) t n l td (state_int st key_MC) s = Done st' e"
      using gov_action_ok [of c _ t n l td s st' e] that s d sane_seat_vote [OF a assms(2)] by auto
  qed (use assms(3) in simp)
qed

subsection \<open>Reachable states\<close>

text \<open>The hook runs in one transaction after another; a transaction that rolls back leaves the state alone.\<close>

inductive governed :: "store \<Rightarrow> bool" where
  installed: "governed Map.empty"
| run: "governed st \<Longrightarrow> sane c \<Longrightarrow> govern c st = Done st' e \<Longrightarrow> governed st'"

lemma governed_inv: "governed st \<Longrightarrow> st = Map.empty \<or> seat_inv st"
proof (induction rule: governed.induct)
  case (run st c st' e)
  show ?case
  proof (cases "seat_inv st")
    case True
    then show ?thesis using govern_keeps [OF run.hyps(3,2)] by simp
  next
    case False
    then have st: "st = Map.empty" using run.IH by simp
    show ?thesis
    proof (cases "st' = Map.empty")
      case False
      with run.hyps(3) st have "exit_of (gov_setup c (hook_account c = genesis) Map.empty) = Done st' e"
        by (auto simp: govern_def Let_def state_int_def split: if_splits option.splits)
      moreover have "gov_setup c L1 Map.empty \<noteq> Inl (Done st' e)" for L1
      proof -
        have seats: "nope (setup_seats c is s)" for "is" s
          by (induction "is" arbitrary: s) (auto simp: Let_def prod.case_eq_if intro!: nope_bind nope_put)
        have "nope (setup_rewards c s)" for s
          by (auto simp: setup_rewards_def Let_def prod.case_eq_if intro!: nope_bind nope_put)
        then have "nope (gov_setup c L1 Map.empty)"
          using seats by (auto simp: gov_setup_def Let_def prod.case_eq_if intro!: nope_bind nope_put)
        then show ?thesis by (auto simp: nope_def)
      qed
      ultimately have "gov_setup c (hook_account c = genesis) Map.empty = Inr st'"
        by (auto simp: exit_of_def split: sum.splits)
      then show ?thesis using setup_ok run.hyps(2) by blast
    qed simp
  qed
qed simp

end
