(* ===== verification/Govern_Liveness.thy ===== *)
theory Govern_Liveness
  imports Govern_Table
begin

text \<open>
  A vote takes effect: once the quota of members has voted for an account on a seat, the account holds the seat.
\<close>

subsection \<open>Calls that vote\<close>













definition seat_data :: "blob \<Rightarrow> blob" where
  "seat_data acc = replicate 12 0 @ acc"

definition ballot :: "byte \<Rightarrow> gov_call \<Rightarrow> blob" where
  "ballot n c = vote_key c cS n 1"

definition tally :: "byte \<Rightarrow> blob \<Rightarrow> blob" where
  "tally n acc = count_key cS n 1 (seat_data acc)"




lemma ballot_tally [simp]: "ballot n c \<noteq> tally n' acc" "tally n' acc \<noteq> ballot n c"
  by (simp_all add: ballot_def tally_def vote_key_def count_key_def)



subsection \<open>Below the quota\<close>








subsection \<open>At the quota\<close>



subsection \<open>Eighty percent\<close>



subsection \<open>A table of two members\<close>















subsection \<open>Votes of members who have left\<close>

text \<open>
  A vote is stored under a key whose fourth byte is the layer, 1 or 2. The loop that deletes the votes of a member who
  leaves looks under keys whose fourth byte is 0, and so finds nothing.
\<close>

lemma gc_votes_nothing:
  assumes "\<And>k. hd k = cV \<Longrightarrow> k ! 3 = 0 \<Longrightarrow> st k = None" "length pm = 32" "pm ! 3 = 0"
  shows "gc_votes c pm is st = Inr st"
proof (induction "is")
  case (Cons i "is")
  have "gc_round c pm i st = Inr st"
  proof -
    have "st (skey ([cV, t, n] @ drop 3 pm)) = None" for t n
      using assms by (simp add: numeral_3_eq_3 nth_append)
    then show ?thesis by (simp add: gc_round_def Let_def state_into_def)
  qed
  then show ?case using Cons.IH by simp
qed simp

lemma vote_key_layer: "hd (vote_key c t n l) = cV" "vote_key c t n l ! 3 = l"
  by (simp_all add: vote_key_def)

text \<open>The topic of hook 10 is accepted, and the action writes behind the end of the array of ten hooks.\<close>

lemma hook_ten_undefined:
  assumes "hook_at c 10 = None" "hook_definition c td"
  shows "act_hook c 10 td st = Undef"
  using assms by (simp add: act_hook_def)

subsection \<open>Properties\<close>





end
