(* ===== verification/Spec2Isabelle.thy ===== *)
theory Spec2Isabelle
  imports Guard_Validate Xfl_Normalize Hook_State_Refine Hook_Sto_Update Hook_Slot_Alloc Hook_Tsh Govern_Liveness
begin

text \<open>
  Verification of the hook subsystem of xahaud.

  A hook is a WebAssembly module installed on an account; the server runs it when a transaction touches the account. The
  parts of the program and how they depend on each other:

  \<^item> Before a hook is installed, \<open>validateGuards\<close> of \<^verbatim>\<open>src/src/ripple/app/hook/Guard.h\<close> reads its bytes and
    accepts it only if every loop begins with a call of the guard function \<open>_g\<close> and the worst case number of
    executed instructions is small.
  \<^item> While a hook runs it calls the API of \<^verbatim>\<open>src/src/ripple/app/hook/impl/applyHook.cpp\<close>: it reads and writes its
    linear memory, its state, its parameters, serialized objects and floating point numbers (XFL). \<open>_g\<close> counts, and
    \<open>accept\<close> and \<open>rollback\<close> end the hook.
  \<^item> XFL sums are sums of \<open>IOUAmount\<close>, which are sums of \<open>Number\<close>, the decimal floating point class of
    \<^verbatim>\<open>src/src/ripple/basics\<close>.
  \<^item> When all hooks of a transaction have accepted, the cache of state that they share is written to the ledger.
  \<^item> \<^verbatim>\<open>src/hook/genesis/govern.c\<close> is a hook itself: the governance of the network, on the API above.

  \<^bold>\<open>Conventions.\<close> Code that can fail returns a sum, the error on the left, sequenced with \<open>rbind\<close> and \<open>require\<close>
  (\<open>Prelude\<close>); \<open>fault\<close> collects the errors of C++: a rejection with its code, exceptions, and \<open>Undefined\<close> for what the
  language leaves undefined (a read outside of a buffer, a shift by too much). Machine integers are integers with the
  conversions \<open>u8\<close> to \<open>u64\<close>, \<open>s32\<close> and \<open>s64\<close> written out where the source converts or may wrap; bytes are words of eight
  bits. A \<open>std::map\<close> is an association list in the order of its keys (\<open>Ordered_Map\<close>). Log output and debug prints are
  left out. Names are those of the source, with a suffix or prefix where HOL has the name already.

  \<^bold>\<open>Guard checker.\<close> \<open>Hook_Enum\<close> has the codes, limits and the table of API signatures of
  \<^verbatim>\<open>src/src/ripple/app/hook/Enum.h\<close>. \<open>Leb128\<close> models the integer readers, \<open>Wasm_Blocks\<close> the block tree \<open>WasmBlkInf\<close> and
  \<open>compute_wce\<close>, \<open>Guard_Check\<close> the pass \<open>check_guard\<close> over one body, \<open>Guard_Validate\<close> the two passes of \<open>validateGuards\<close>
  over a module and the command line tool. \<open>Guard_Sound\<close> and \<open>Guard_Validate\<close> show what acceptance means: every loop is
  guarded, every body is checked, only imports of the API with the right signature are called, the worst case is below the
  limit, and the checker itself always ends. The recursion of \<open>compute_wce\<close> has the limit of the source as its fuel, and
  exceeding it is the error of the source; the loops over instructions and sections are recursive functions with
  termination proofs.

  \<^bold>\<open>Numbers.\<close> \<open>Decimal_Number\<close> models \<open>Number\<close> with its guard digits and \<open>divu10\<close> in the rounding mode \<open>to_nearest\<close>,
  the default; \<open>Number_Rounding\<close> and \<open>Number_Subtract\<close> show that the operations are the exact results rounded to
  nearest, and name the one mantissa at which a difference loses a digit. \<open>IOU_Amount\<close> models \<open>IOUAmount\<close> with its
  invariant, order, sum and \<open>mulRatio\<close>. The loop that subtracts digits has forty steps of fuel (\<open>sub_steps\<close>): the
  theorems show that it ends before.

  \<^bold>\<open>Hook API.\<close> \<open>Hook_Memory\<close> models the macros for memory and for the end of a hook, and \<open>_g\<close>. \<open>Xfl\<close> models the
  \<open>float_\<close> functions, \<open>Xfl_Fields\<close>, \<open>Xfl_Arith\<close> and \<open>Xfl_Normalize\<close> show that the encoding is a bijection, that every
  function answers with an error or a valid XFL, and how near sums, products and \<open>float_set\<close> are to the exact values.
  \<open>Ieee_Double\<close> is the part of double arithmetic that the code uses. \<open>Hook_State\<close> models the shared cache, the state
  functions, grants, reserves and \<open>finalizeHookState\<close>; \<open>Hook_State_Cache\<close> (locale \<open>write_cache\<close>), \<open>Hook_State_Commit\<close>,
  \<open>Hook_State_Session\<close> and \<open>Hook_State_Refine\<close> show that a transaction implements an abstract map that its successful
  writes update, and that an account that grants nothing keeps its state. \<open>Hook_Sto\<close> models the parser of serialized
  objects and the \<open>sto_\<close> functions; \<open>Hook_Sto_Fields\<close> and \<open>Hook_Sto_Update\<close> show that no read leaves the buffer and that
  the functions implement lookup, insertion and removal on the list of fields. The nesting limit of eleven and the limit of 1024
  rounds are those of the source. \<open>Hook_Param\<close> models hook parameters and the control of the chain of hooks.
  \<open>Hook_Slot\<close> models the slots and \<open>Hook_Slot_Alloc\<close> shows that a hook gets a slot as long as one is free. The loop of the
  allocation is a recursive function that ends because the counter grows. \<open>Hook_Tsh\<close> models the stakeholders of a
  transaction and shows that each account is collected once, with the greatest strength it is named with.

  \<^bold>\<open>Governance.\<close> \<open>Govern\<close> models the governance hook whole: setup, the vote of a member, thresholds and actions.
  \<open>Govern_Seats\<close> and \<open>Govern_Table\<close> show by induction over its executions that the seat table stays consistent,
  \<open>Govern_Liveness\<close> that a vote of eighty percent of the members takes effect.

  \<^bold>\<open>Parameters.\<close> Code outside of the sources is an argument of the definitions that use it: the logarithm of the C
  library (\<open>lg\<close>, assumed near the real one where the accuracy of \<open>float_set\<close> and products is stated), the function of
  WasmEdge that writes the memory of a hook (\<open>sd\<close>, assumed to copy what lies within the memory). The bytes of an object in a slot, ledger lookups and the table of known
  fields are arguments of the slot functions and of the stakeholders. The pages of owner
  directories are abstracted to lists of keys, with a parameter for a directory that is full. For the governance hook
  the refusal of a write, the installed hooks and the success of an emission are parameters, as are the old contents of
  stack buffers that are read before all of their bytes are written.

  \<^bold>\<open>Not modelled.\<close> The virtual machine itself and the loop that runs it; the transactor \<open>SetHook\<close> and emission, which
  work on objects of the serialization library and of the ledger rather than on bytes; the bytes of the transactions the
  governance hook emits; the reward, mint and nftoken hooks, which consist of such transactions; other rounding modes of
  \<open>Number\<close>, its roots and its text form; the rest of the server (consensus, network, storage, RPC, cryptography), which
  hooks do not see.
\<close>

end
